theory Spec2Isabelle
  imports Complex_Main
begin

section \<open>Conventions of the embedding\<close>

text \<open>
  The program is \<^verbatim>\<open>apply_custom_changes.py\<close>. Its functions keep their names.

  \<^item> A Python \<^verbatim>\<open>float\<close> is modelled by the rational number it stands for: arithmetic
    is exact, the rounding error of binary floating point is outside the model.
  \<^item> A Python \<^verbatim>\<open>str\<close> is the list of its Unicode code points, each an integer;
    \<open>ustr\<close> turns a literal of this theory into such a text.
  \<^item> A value that may be \<^verbatim>\<open>None\<close> is an \<open>option\<close>.
  \<^item> Every exception is a value of type \<open>error\<close>; a function that may raise returns
    \<open>error + 'a\<close>, with \<open>Inl\<close> for the exception.
\<close>

type_synonym ustring = "int list"

definition cp :: "char \<Rightarrow> int" where
  "cp c = of_char c"

definition ustr :: "string \<Rightarrow> ustring" where
  "ustr s = map cp s"

text \<open>
  An exception is modelled by its class. The \<^verbatim>\<open>ValueError\<close> that the program
  raises itself carries its message; \<open>LibraryValueError\<close> is a \<^verbatim>\<open>ValueError\<close> raised
  inside the standard library (by \<^verbatim>\<open>float\<close> or by the constructor of
  \<^verbatim>\<open>datetime\<close>), whose message is left out, like the messages of the other classes.
  \<open>ModelError\<close> is whatever the field model raises, \<open>DocumentError\<close> the
  \<^verbatim>\<open>ParseError\<close> of the XML parser.
\<close>

datatype error =
    ValueError ustring
  | LibraryValueError
  | TypeError
  | ZeroDivisionError
  | OverflowError
  | ModelError string
  | DocumentError
  | OSError

definition bind_err :: "error + 'a \<Rightarrow> ('a \<Rightarrow> error + 'b) \<Rightarrow> error + 'b" where
  "bind_err m f = (case m of Inl e \<Rightarrow> Inl e | Inr x \<Rightarrow> f x)"


section \<open>Unicode decimal digits\<close>

text \<open>
  The pattern of the program is a \<^verbatim>\<open>str\<close> pattern compiled without
  \<^verbatim>\<open>re.ASCII\<close>, so its \<^verbatim>\<open>\d\<close> matches every character of the Unicode category Nd,
  and \<^verbatim>\<open>float\<close> reads each of them as the digit it stands for. The characters of Nd
  come in runs of ten consecutive code points for the digits 0 to 9; \<open>nd_zeros\<close>
  lists the first code point of each run (Unicode 14.0, the database of Python 3.11),
  beginning with the ASCII digits at 48.
\<close>

definition nd_zeros :: "int list" where
  "nd_zeros =
     [48, 1632, 1776, 1984, 2406, 2534, 2662, 2790, 2918, 3046, 3174, 3302, 3430, 3558,
      3664, 3792, 3872, 4160, 4240, 6112, 6160, 6470, 6608, 6784, 6800, 6992, 7088,
      7232, 7248, 42528, 43216, 43264, 43472, 43504, 43600, 44016, 65296, 66720, 68912,
      69734, 69872, 69942, 70096, 70384, 70736, 70864, 71248, 71360, 71472, 71904,
      72016, 72784, 73040, 73120, 92768, 92864, 93008, 120782, 120792, 120802, 120812,
      120822, 123200, 123632, 125264, 130032]"

text \<open>The digit that a code point stands for; \<open>None\<close> when it is not in Nd.\<close>

definition decimal_digit :: "int \<Rightarrow> nat option" where
  "decimal_digit c =
     (case find (\<lambda>z. z \<le> c \<and> c < z + 10) nd_zeros of
        None \<Rightarrow> None
      | Some z \<Rightarrow> Some (nat (c - z)))"

definition is_digit :: "int \<Rightarrow> bool" where
  "is_digit c = (decimal_digit c \<noteq> None)"

text \<open>The digits \<^verbatim>\<open>0\<close> to \<^verbatim>\<open>9\<close> of ASCII alone.\<close>

definition ascii_digit :: "int \<Rightarrow> bool" where
  "ascii_digit c = (48 \<le> c \<and> c \<le> 57)"


section \<open>The regular expressions of \<^verbatim>\<open>re\<close> used by the program\<close>

text \<open>
  The fragment of the \<^verbatim>\<open>re\<close> syntax that the coordinate pattern uses: a character
  class (a set \<^verbatim>\<open>[...]\<close> of characters, or \<^verbatim>\<open>\d\<close>), a sequence, the greedy
  \<^verbatim>\<open>?\<close>, the greedy \<^verbatim>\<open>+\<close> on a character class, and a named group
  \<^verbatim>\<open>(?P<name>...)\<close>. A non-capturing group \<^verbatim>\<open>(?:...)\<close> is its body; \<^verbatim>\<open>\d{2}\<close> is
  \<^verbatim>\<open>\d\d\<close>.
\<close>

datatype cls = OneOf ustring | Decimal

fun in_cls :: "cls \<Rightarrow> int \<Rightarrow> bool" where
  "in_cls (OneOf cs) c = (c \<in> set cs)"
| "in_cls Decimal c = is_digit c"

datatype re =
    Chars cls
  | Seq re re
  | Opt re
  | Many cls
  | Group string re

type_synonym captures = "(string \<times> ustring) list"

text \<open>
  The backtracking matcher: \<open>rmatch r s\<close> lists every way in which \<open>r\<close> matches a
  prefix of \<open>s\<close>, as the groups captured and the text left over, in the order in which
  the backtracking engine of \<^verbatim>\<open>re\<close> tries them (a greedy operator tries the longer
  match first).
\<close>

fun rmatch :: "re \<Rightarrow> ustring \<Rightarrow> (captures \<times> ustring) list" where
  "rmatch (Chars k) s =
     (case s of [] \<Rightarrow> [] | c # t \<Rightarrow> if in_cls k c then [([], t)] else [])"
| "rmatch (Seq a b) s =
     concat (map (\<lambda>(c1, t1). map (\<lambda>(c2, t2). (c1 @ c2, t2)) (rmatch b t1)) (rmatch a s))"
| "rmatch (Opt a) s = rmatch a s @ [([], s)]"
| "rmatch (Many k) s =
     map (\<lambda>n. ([], drop n s)) (rev [1 ..< Suc (length (takeWhile (in_cls k) s))])"
| "rmatch (Group n a) s =
     map (\<lambda>(c, t). ((n, take (length s - length t) s) # c, t)) (rmatch a s)"

text \<open>
  \<^verbatim>\<open>re.fullmatch\<close>: the first way of matching that consumes the whole text;
  \<open>None\<close> when there is none. The anchors \<^verbatim>\<open>^\<close> and \<^verbatim>\<open>$\<close> of the pattern are
  zero-width and hold at the two ends of a full match, so they are not represented.
\<close>

definition fullmatch :: "re \<Rightarrow> ustring \<Rightarrow> captures option" where
  "fullmatch r s = map_option fst (find (\<lambda>(c, t). t = []) (rmatch r s))"

text \<open>\<^verbatim>\<open>match.group(name)\<close>: \<open>None\<close> for a group that took no part in the match.\<close>

definition group :: "captures \<Rightarrow> string \<Rightarrow> ustring option" where
  "group m n = map_of m n"

text \<open>The truth value of \<^verbatim>\<open>match.group(name)\<close> in a condition.\<close>

definition truthy :: "ustring option \<Rightarrow> bool" where
  "truthy v = (case v of None \<Rightarrow> False | Some w \<Rightarrow> w \<noteq> [])"


section \<open>The coordinate pattern\<close>

definition digit :: re where
  "digit = Chars Decimal"

definition sign :: re where
  "sign = Chars (OneOf (ustr ''+-''))"

text \<open>\<^verbatim>\<open>(?:\.\d+)?\<close>\<close>

definition fraction_re :: re where
  "fraction_re = Opt (Seq (Chars (OneOf (ustr ''.''))) (Many Decimal))"

text \<open>\<^verbatim>\<open>\d{2}(?:\.\d+)?\<close> and \<^verbatim>\<open>\d{3}(?:\.\d+)?\<close>\<close>

definition field2 :: re where
  "field2 = Seq digit (Seq digit fraction_re)"

definition field3 :: re where
  "field3 = Seq digit (Seq digit (Seq digit fraction_re))"

text \<open>\<^verbatim>\<open>[+-]\d+(?:\.\d+)?\<close>\<close>

definition altitude_re :: re where
  "altitude_re = Seq sign (Seq (Many Decimal) fraction_re)"

definition pattern :: re where
  "pattern =
     Seq (Group ''lat_sign'' sign)
    (Seq (Group ''lat_deg'' field2)
    (Seq (Opt (Group ''lat_min'' field2))
    (Seq (Opt (Group ''lat_sec'' field2))
    (Seq (Group ''lon_sign'' sign)
    (Seq (Group ''lon_deg'' field3)
    (Seq (Opt (Group ''lon_min'' field2))
    (Seq (Opt (Group ''lon_sec'' field2))
         (Opt (Group ''alt'' altitude_re)))))))))"


section \<open>\<^verbatim>\<open>float\<close> on the texts of the groups\<close>

definition digit_val :: "int \<Rightarrow> nat" where
  "digit_val c = (case decimal_digit c of None \<Rightarrow> 0 | Some d \<Rightarrow> d)"

definition digits_val :: "ustring \<Rightarrow> nat" where
  "digits_val w = foldl (\<lambda>a c. 10 * a + digit_val c) 0 w"

text \<open>
  The value of \<^verbatim>\<open>digits\<close> or \<^verbatim>\<open>digits.digits\<close>; \<open>None\<close> for any other text.
\<close>

definition decimal :: "ustring \<Rightarrow> rat option" where
  "decimal w =
     (let ip = takeWhile is_digit w; rest = dropWhile is_digit w in
      if ip = [] then None
      else case rest of
             [] \<Rightarrow> Some (of_nat (digits_val ip))
           | c # fp \<Rightarrow>
               if c = cp CHR ''.'' \<and> fp \<noteq> [] \<and> list_all is_digit fp
               then Some (of_nat (digits_val ip) + of_nat (digits_val fp) / 10 ^ length fp)
               else None)"

text \<open>The value of a decimal numeral with an optional sign in front.\<close>

definition signed_decimal :: "ustring \<Rightarrow> rat option" where
  "signed_decimal w =
     (case w of
        [] \<Rightarrow> None
      | c # u \<Rightarrow>
          if c = cp CHR ''+'' then decimal u
          else if c = cp CHR ''-'' then map_option uminus (decimal u)
          else decimal w)"

text \<open>
  \<^verbatim>\<open>float(x)\<close> for \<open>x\<close> the value of a group: a \<^verbatim>\<open>TypeError\<close> on \<^verbatim>\<open>None\<close>, the
  value of an optionally signed decimal numeral otherwise, every decimal digit of
  Unicode counting as the digit it stands for. The notations of \<^verbatim>\<open>float\<close> beyond
  these (exponents, infinities, blanks around the numeral) are not decoded: the model
  answers \<^verbatim>\<open>ValueError\<close> there, and \<open>group_field\<close> with \<open>signed_decimal_field\<close> and
  \<open>signed_decimal_altitude\<close> below show that no group of a match holds such a text.
\<close>

definition py_float :: "ustring option \<Rightarrow> error + rat" where
  "py_float x =
     (case x of
        None \<Rightarrow> Inl TypeError
      | Some w \<Rightarrow>
          (case signed_decimal w of
             None \<Rightarrow> Inl LibraryValueError
           | Some q \<Rightarrow> Inr q))"


section \<open>\<^verbatim>\<open>parse_iso6709\<close>\<close>

text \<open>
  The argument is what the caller passes: a text, or \<^verbatim>\<open>None\<close> when the attribute
  read by \<^verbatim>\<open>position.get\<close> is missing, on which \<^verbatim>\<open>re.fullmatch\<close> raises
  \<^verbatim>\<open>TypeError\<close>. The result is the tuple (latitude, longitude, altitude).
\<close>

definition parse_iso6709 :: "ustring option \<Rightarrow> error + (rat \<times> rat \<times> rat option)" where
  "parse_iso6709 coord_str =
     (case coord_str of
        None \<Rightarrow> Inl TypeError
      | Some s \<Rightarrow>
     (case fullmatch pattern s of
        None \<Rightarrow> Inl (ValueError (ustr ''Invalid ISO 6709 coordinate format: '' @ s))
      | Some m \<Rightarrow>
          let lat_sign = (if group m ''lat_sign'' = Some (ustr ''-'') then - 1 else 1) in
          bind_err (py_float (group m ''lat_deg'')) (\<lambda>lat_deg.
          bind_err
            (if truthy (group m ''lat_min'') then
               bind_err (py_float (group m ''lat_min'')) (\<lambda>lat_min.
               if truthy (group m ''lat_sec'') then
                 bind_err (py_float (group m ''lat_sec'')) (\<lambda>lat_sec.
                 Inr (lat_sign * (lat_deg + lat_min / 60 + lat_sec / 3600)))
               else Inr (lat_sign * (lat_deg + lat_min / 60)))
             else Inr (lat_sign * lat_deg)) (\<lambda>latitude.
          let lon_sign = (if group m ''lon_sign'' = Some (ustr ''-'') then - 1 else 1) in
          bind_err (py_float (group m ''lon_deg'')) (\<lambda>lon_deg.
          bind_err
            (if truthy (group m ''lon_min'') then
               bind_err (py_float (group m ''lon_min'')) (\<lambda>lon_min.
               if truthy (group m ''lon_sec'') then
                 bind_err (py_float (group m ''lon_sec'')) (\<lambda>lon_sec.
                 Inr (lon_sign * (lon_deg + lon_min / 60 + lon_sec / 3600)))
               else Inr (lon_sign * (lon_deg + lon_min / 60)))
             else Inr (lon_sign * lon_deg)) (\<lambda>longitude.
          bind_err
            (if truthy (group m ''alt'') then map_sum id Some (py_float (group m ''alt''))
             else Inr None) (\<lambda>altitude.
          Inr (latitude, longitude, altitude))))))))"


section \<open>The language of a pattern and the groups of a match\<close>

text \<open>The texts that a pattern matches in full, whatever the order of the search.\<close>

fun lang :: "re \<Rightarrow> ustring set" where
  "lang (Chars k) = {[c] | c. in_cls k c}"
| "lang (Seq a b) = {u @ v | u v. u \<in> lang a \<and> v \<in> lang b}"
| "lang (Opt a) = insert [] (lang a)"
| "lang (Many k) = {w. w \<noteq> [] \<and> list_all (in_cls k) w}"
| "lang (Group n a) = lang a"

text \<open>The named groups of a pattern with their bodies.\<close>

fun groups_of :: "re \<Rightarrow> (string \<times> re) list" where
  "groups_of (Chars k) = []"
| "groups_of (Seq a b) = groups_of a @ groups_of b"
| "groups_of (Opt a) = groups_of a"
| "groups_of (Many k) = []"
| "groups_of (Group n a) = (n, a) # groups_of a"

text \<open>The groups that take part in every match: those not under a \<^verbatim>\<open>?\<close>.\<close>

fun must :: "re \<Rightarrow> string list" where
  "must (Chars k) = []"
| "must (Seq a b) = must a @ must b"
| "must (Opt a) = []"
| "must (Many k) = []"
| "must (Group n a) = n # must a"


section \<open>The coordinate grammar of the specification\<close>

text \<open>
  The grammar as the specification writes it, as sets of texts, independent of the
  matcher:
  \<^verbatim>\<open>coordinate := lat_sign lat_deg[2] lat_min[2]? lat_sec[2]?
                  lon_sign lon_deg[3] lon_min[2]? lon_sec[2]? alt?\<close>,
  a sign is \<^verbatim>\<open>+\<close> or \<^verbatim>\<open>-\<close>, a field is its fixed number of digits with an
  optional \<^verbatim>\<open>.\<close> and digits after it, and
  \<^verbatim>\<open>alt := sign digits ('.' digits)?\<close>.
  What counts as a digit is the parameter \<open>D\<close>. The specification says no more than
  "digits": read as the digits 0 to 9 this gives \<open>ascii_coordinate\<close>; with every
  decimal digit of Unicode as a digit it gives \<open>coordinate\<close>.
\<close>

definition conc :: "ustring set \<Rightarrow> ustring set \<Rightarrow> ustring set" where
  "conc A B = {u @ v | u v. u \<in> A \<and> v \<in> B}"

definition optional :: "ustring set \<Rightarrow> ustring set" where
  "optional A = insert [] A"

definition digits_of :: "(int \<Rightarrow> bool) \<Rightarrow> ustring set" where
  "digits_of D = {w. w \<noteq> [] \<and> list_all D w}"

definition digits_n_of :: "(int \<Rightarrow> bool) \<Rightarrow> nat \<Rightarrow> ustring set" where
  "digits_n_of D n = {w. length w = n \<and> list_all D w}"

definition sign_g :: "ustring set" where
  "sign_g = {ustr ''+'', ustr ''-''}"

definition field_of :: "(int \<Rightarrow> bool) \<Rightarrow> nat \<Rightarrow> ustring set" where
  "field_of D n = conc (digits_n_of D n) (optional (conc {ustr ''.''} (digits_of D)))"

definition alt_of :: "(int \<Rightarrow> bool) \<Rightarrow> ustring set" where
  "alt_of D = conc sign_g (conc (digits_of D) (optional (conc {ustr ''.''} (digits_of D))))"

definition coordinate_of :: "(int \<Rightarrow> bool) \<Rightarrow> ustring set" where
  "coordinate_of D =
     conc sign_g (conc (field_of D 2) (conc (optional (field_of D 2))
    (conc (optional (field_of D 2))
    (conc sign_g (conc (field_of D 3) (conc (optional (field_of D 2))
    (conc (optional (field_of D 2))
    (optional (alt_of D)))))))))"

abbreviation digits :: "ustring set" where
  "digits \<equiv> digits_of is_digit"

abbreviation digits_n :: "nat \<Rightarrow> ustring set" where
  "digits_n \<equiv> digits_n_of is_digit"

abbreviation field_g :: "nat \<Rightarrow> ustring set" where
  "field_g \<equiv> field_of is_digit"

abbreviation alt_g :: "ustring set" where
  "alt_g \<equiv> alt_of is_digit"

abbreviation coordinate :: "ustring set" where
  "coordinate \<equiv> coordinate_of is_digit"

abbreviation ascii_coordinate :: "ustring set" where
  "ascii_coordinate \<equiv> coordinate_of ascii_digit"

text \<open>
  The three precision tiers of the specification: degrees only; degrees and minutes;
  degrees, minutes and seconds. \<open>axis_g n t\<close> is one axis written in tier \<open>t\<close> with
  \<open>n\<close> digits of degrees; \<open>tiers_g t1 t2\<close> is a coordinate whose latitude is in tier
  \<open>t1\<close> and whose longitude is in tier \<open>t2\<close>, with the optional altitude after them.
  A text is reducible to one tier when both axes are in the same tier. Here every
  decimal digit of Unicode is a digit.
\<close>

datatype tier = Degrees | Minutes | Seconds

fun axis_g :: "nat \<Rightarrow> tier \<Rightarrow> ustring set" where
  "axis_g n Degrees = field_g n"
| "axis_g n Minutes = conc (field_g n) (field_g 2)"
| "axis_g n Seconds = conc (field_g n) (conc (field_g 2) (field_g 2))"

definition tiers_g :: "tier \<Rightarrow> tier \<Rightarrow> ustring set" where
  "tiers_g t1 t2 =
     conc sign_g (conc (axis_g 2 t1) (conc sign_g (conc (axis_g 3 t2) (optional alt_g))))"

definition one_tier :: "ustring set" where
  "one_tier = tiers_g Degrees Degrees \<union> tiers_g Minutes Minutes \<union> tiers_g Seconds Seconds"

text \<open>
  The decoding rule of the specification for one axis: the sign times the degrees when
  the minutes are absent, times degrees + minutes/60 when the seconds are absent, times
  degrees + minutes/60 + seconds/3600 when both are present.
\<close>

definition tier_value :: "rat \<Rightarrow> rat \<Rightarrow> rat option \<Rightarrow> rat option \<Rightarrow> rat" where
  "tier_value sg deg mins secs =
     (case mins of
        None \<Rightarrow> sg * deg
      | Some m \<Rightarrow>
          (case secs of
             None \<Rightarrow> sg * (deg + m / 60)
           | Some x \<Rightarrow> sg * (deg + m / 60 + x / 3600)))"

definition sign_value :: "ustring option \<Rightarrow> rat" where
  "sign_value g = (if g = Some (ustr ''-'') then - 1 else 1)"

definition text_value :: "ustring option \<Rightarrow> rat option" where
  "text_value g = (case g of None \<Rightarrow> None | Some w \<Rightarrow> signed_decimal w)"

text \<open>The same tiers as patterns, to decide membership with the matcher.\<close>

fun axis_re :: "re \<Rightarrow> tier \<Rightarrow> re" where
  "axis_re d Degrees = d"
| "axis_re d Minutes = Seq d field2"
| "axis_re d Seconds = Seq d (Seq field2 field2)"

definition tiers_re :: "tier \<Rightarrow> tier \<Rightarrow> re" where
  "tiers_re t1 t2 =
     Seq sign (Seq (axis_re field2 t1) (Seq sign (Seq (axis_re field3 t2) (Opt altitude_re))))"


section \<open>Dates and \<^verbatim>\<open>to_year_fraction\<close>\<close>

text \<open>
  A \<^verbatim>\<open>datetime.datetime\<close> without time zone, and the \<^verbatim>\<open>struct_time\<close> that its
  \<^verbatim>\<open>timetuple()\<close> returns. Of the nine fields of a \<^verbatim>\<open>struct_time\<close> the six below
  are kept: \<^verbatim>\<open>mktime\<close> ignores the day of the week and the day of the year, and
  \<^verbatim>\<open>tm_isdst\<close> is always -1 for a datetime without zone. The microseconds are not
  part of a \<^verbatim>\<open>struct_time\<close>.
\<close>

record datetime =
  year :: int
  month :: int
  day :: int
  hour :: int
  minute :: int
  second :: int
  microsecond :: int

record struct_time =
  tm_year :: int
  tm_mon :: int
  tm_mday :: int
  tm_hour :: int
  tm_min :: int
  tm_sec :: int

definition timetuple :: "datetime \<Rightarrow> struct_time" where
  "timetuple d =
     \<lparr>tm_year = year d, tm_mon = month d, tm_mday = day d,
      tm_hour = hour d, tm_min = minute d, tm_sec = second d\<rparr>"

text \<open>
  \<^verbatim>\<open>datetime.datetime(year=y, month=1, day=1)\<close>: the constructor raises
  \<^verbatim>\<open>ValueError\<close> unless the year lies between \<^verbatim>\<open>MINYEAR\<close> = 1 and
  \<^verbatim>\<open>MAXYEAR\<close> = 9999; the month and the day given here are always in range, and the
  remaining fields default to 0.
\<close>

definition new_year_day :: "int \<Rightarrow> error + datetime" where
  "new_year_day y =
     (if 1 \<le> y \<and> y \<le> 9999
      then Inr \<lparr>year = y, month = 1, day = 1, hour = 0, minute = 0, second = 0,
                microsecond = 0\<rparr>
      else Inl LibraryValueError)"

text \<open>
  \<^verbatim>\<open>time.mktime\<close> belongs to the platform and its local time zone, so it is a
  parameter \<open>mk\<close>: the seconds since the epoch of a local time, or \<open>None\<close> where the
  platform cannot represent the time and Python raises \<^verbatim>\<open>OverflowError\<close>.
\<close>

definition since_epoch :: "(struct_time \<Rightarrow> rat option) \<Rightarrow> datetime \<Rightarrow> error + rat" where
  "since_epoch mk epoch_date =
     (case mk (timetuple epoch_date) of
        None \<Rightarrow> Inl OverflowError
      | Some t \<Rightarrow> Inr t)"

definition to_year_fraction :: "(struct_time \<Rightarrow> rat option) \<Rightarrow> datetime \<Rightarrow> error + rat" where
  "to_year_fraction mk date =
     (let s = since_epoch mk in
      bind_err (new_year_day (year date)) (\<lambda>startOfThisYear.
      bind_err (new_year_day (year date + 1)) (\<lambda>startOfNextYear.
      bind_err (s date) (\<lambda>a.
      bind_err (s startOfThisYear) (\<lambda>b.
      let yearElapsed = a - b in
      bind_err (s startOfNextYear) (\<lambda>c.
      bind_err (s startOfThisYear) (\<lambda>d.
      let yearDuration = c - d in
      if yearDuration = 0 then Inl ZeroDivisionError
      else let fraction = yearElapsed / yearDuration in
           Inr (of_int (year date) + fraction))))))))"

text \<open>
  One instance of the parameter, used to evaluate the model on concrete dates: the
  \<^verbatim>\<open>mktime\<close> of a platform whose local time is UTC, by the day count of the proleptic
  Gregorian calendar.
\<close>

definition is_leap :: "int \<Rightarrow> bool" where
  "is_leap y = (y mod 4 = 0 \<and> (y mod 100 \<noteq> 0 \<or> y mod 400 = 0))"

definition days_before_year :: "int \<Rightarrow> int" where
  "days_before_year y = 365 * (y - 1) + (y - 1) div 4 - (y - 1) div 100 + (y - 1) div 400"

definition days_in_month :: "int \<Rightarrow> int \<Rightarrow> int" where
  "days_in_month y m =
     (if m = 2 then (if is_leap y then 29 else 28)
      else if m = 4 \<or> m = 6 \<or> m = 9 \<or> m = 11 then 30 else 31)"

definition days_before_month :: "int \<Rightarrow> int \<Rightarrow> int" where
  "days_before_month y m = sum_list (map (days_in_month y) [1 .. m - 1])"

definition utc_mktime :: "struct_time \<Rightarrow> rat option" where
  "utc_mktime t =
     Some (of_int
       ((days_before_year (tm_year t) + days_before_month (tm_year t) (tm_mon t) + tm_mday t
           - 719163) * 86400
        + tm_hour t * 3600 + tm_min t * 60 + tm_sec t))"


section \<open>The collaborators of the pipeline\<close>

text \<open>
  What the program takes from outside: the platform's \<^verbatim>\<open>mktime\<close>; the clock, as the
  sequence of the values that the successive calls of \<^verbatim>\<open>datetime.datetime.today()\<close>
  return; the field model, \<open>calculate glat glon alt time\<close> being the declination
  \<^verbatim>\<open>geo_mag.calculate(...).d\<close> or the message of the exception raised inside the model;
  and \<^verbatim>\<open>str\<close> on a float.
\<close>

record env =
  mktime :: "struct_time \<Rightarrow> rat option"
  today :: "nat \<Rightarrow> datetime"
  calculate :: "rat \<Rightarrow> rat \<Rightarrow> rat \<Rightarrow> rat \<Rightarrow> string + rat"
  float_str :: "rat \<Rightarrow> ustring"

text \<open>
  \<^verbatim>\<open>round(x, ndigits)\<close> on a float: the nearest multiple of \<open>10 ^ - ndigits\<close>, a tie
  going to the even multiple.
\<close>

definition round_half_even :: "rat \<Rightarrow> int" where
  "round_half_even x =
     (let f = \<lfloor>x\<rfloor>; r = x - of_int f in
      if r < 1 / 2 then f
      else if 1 / 2 < r then f + 1
      else if even f then f else f + 1)"

definition py_round :: "rat \<Rightarrow> nat \<Rightarrow> rat" where
  "py_round x ndigits = of_int (round_half_even (x * 10 ^ ndigits)) / 10 ^ ndigits"


section \<open>The element tree\<close>

text \<open>
  An \<^verbatim>\<open>xml.etree.ElementTree.Element\<close>: tag, attribute dictionary (in insertion
  order), text, tail and children. The parser of \<^verbatim>\<open>ET.parse\<close> keeps neither comments
  nor processing instructions, so every child is an element.
\<close>

datatype element =
  Element (tag: ustring) (attrib: "(ustring \<times> ustring) list")
          (elem_text: "ustring option") (elem_tail: "ustring option")
          (children: "element list")

text \<open>\<^verbatim>\<open>Element.get(key)\<close>: \<open>None\<close> for a missing attribute.\<close>

definition get :: "element \<Rightarrow> ustring \<Rightarrow> ustring option" where
  "get e key = map_of (attrib e) key"

text \<open>
  Assignment in a dictionary: the value of a key already present is replaced where
  it stands, a new key goes to the end.
\<close>

fun dict_set ::
  "(ustring \<times> ustring) list \<Rightarrow> ustring \<Rightarrow> ustring \<Rightarrow> (ustring \<times> ustring) list" where
  "dict_set [] key v = [(key, v)]"
| "dict_set ((k, x) # kvs) key v =
     (if k = key then (key, v) # kvs else (k, x) # dict_set kvs key v)"

text \<open>\<^verbatim>\<open>Element.set(key, value)\<close>\<close>

definition set_attr :: "ustring \<Rightarrow> ustring \<Rightarrow> element \<Rightarrow> element" where
  "set_attr key v e =
     Element (tag e) (dict_set (attrib e) key v) (elem_text e) (elem_tail e) (children e)"

text \<open>
  \<^verbatim>\<open>Element.findall(name)\<close> with a plain tag as path: the children with that tag, in
  document order. A child is returned by reference; the model returns its index.
\<close>

definition findall :: "element \<Rightarrow> ustring \<Rightarrow> nat list" where
  "findall e name = filter (\<lambda>i. tag (children e ! i) = name) [0 ..< length (children e)]"

text \<open>
  A reference to an element of the tree under the root is the path of child indices
  that leads to it. \<open>elem_at\<close> follows a reference, \<open>modify_at\<close> is a mutation of the
  element behind it.
\<close>

type_synonym ref = "nat list"

fun elem_at :: "element \<Rightarrow> ref \<Rightarrow> element option" where
  "elem_at e [] = Some e"
| "elem_at e (i # p) =
     (if i < length (children e) then elem_at (children e ! i) p else None)"

fun modify_at :: "(element \<Rightarrow> element) \<Rightarrow> ref \<Rightarrow> element \<Rightarrow> element" where
  "modify_at f [] e = f e"
| "modify_at f (i # p) e =
     (if i < length (children e)
      then Element (tag e) (attrib e) (elem_text e) (elem_tail e)
             ((children e)[i := modify_at f p (children e ! i)])
      else e)"


section \<open>The state of the run\<close>

text \<open>
  The files are kept as the trees they hold: a file is absent, or not well-formed
  XML, or the document that \<^verbatim>\<open>ET.parse\<close> reads from it and \<^verbatim>\<open>tree.write\<close> writes
  to it. The state also counts the readings of the clock made so far, logs the
  arguments (glat, glon, alt, time) of every call of the field model, and collects
  what is printed.
\<close>

datatype document = Wellformed element | Malformed

datatype message = Updated_positions nat ustring

record world =
  files :: "ustring \<Rightarrow> document option"
  readings :: nat
  calls :: "(rat \<times> rat \<times> rat \<times> rat) list"
  stdout :: "message list"


section \<open>The positions pipeline\<close>

text \<open>
  \<^verbatim>\<open>get_mag_var\<close>: the argument \<^verbatim>\<open>to_year_fraction(datetime.datetime.today())\<close> is
  evaluated, which reads the clock, and then the model is called.
\<close>

definition get_mag_var :: "env \<Rightarrow> world \<Rightarrow> rat \<Rightarrow> rat \<Rightarrow> rat \<Rightarrow> (error + rat) \<times> world" where
  "get_mag_var E w latitude longitude altitude =
     (let now = today E (readings w);
          w1 = w\<lparr>readings := Suc (readings w)\<rparr> in
      case to_year_fraction (mktime E) now of
        Inl e \<Rightarrow> (Inl e, w1)
      | Inr t \<Rightarrow>
          let w2 = w1\<lparr>calls := calls w1 @ [(latitude, longitude, altitude, t)]\<rparr> in
          (case calculate E latitude longitude altitude t of
             Inl msg \<Rightarrow> (Inl (ModelError msg), w2)
           | Inr d \<Rightarrow> (Inr d, w2)))"

definition get_mag_var_for_iso6709 ::
  "env \<Rightarrow> world \<Rightarrow> ustring option \<Rightarrow> (error + rat) \<times> world" where
  "get_mag_var_for_iso6709 E w coord_str =
     (case parse_iso6709 coord_str of
        Inl e \<Rightarrow> (Inl e, w)
      | Inr (lat, lon, alt) \<Rightarrow>
          let alt = (case alt of None \<Rightarrow> 0 | Some a \<Rightarrow> a) in
          get_mag_var E w lat lon alt)"

text \<open>
  The body of the loop of \<^verbatim>\<open>modify_positions_xml\<close> for one element of
  \<^verbatim>\<open>all_positions\<close>. The references of the loop come from \<^verbatim>\<open>findall\<close> and always
  lead to an element (\<open>all_positions_valid\<close> below); the branch for a reference that
  leads nowhere exists only because \<open>elem_at\<close> is total.
\<close>

definition annotate :: "env \<Rightarrow> ref \<Rightarrow> element \<times> world \<Rightarrow> (error + element) \<times> world" where
  "annotate E p = (\<lambda>(rt, w).
     case elem_at rt p of
       None \<Rightarrow> (Inl DocumentError, w)
     | Some position \<Rightarrow>
         let position_name = get position (ustr ''Name'');
             location = get position (ustr ''DefaultCenter'') in
         (case get_mag_var_for_iso6709 E w location of
            (Inl e, w1) \<Rightarrow> (Inl e, w1)
          | (Inr d, w1) \<Rightarrow>
              let magnetic_variation = d * (- 1);
                  rt1 = modify_at
                    (set_attr (ustr ''MagneticVariation'')
                       (float_str E (py_round magnetic_variation 2)))
                    p rt;
                  rt2 = modify_at (set_attr (ustr ''Rotation'') (ustr ''0'')) p rt1 in
              (Inr rt2, w1)))"

fun positions_loop :: "env \<Rightarrow> ref list \<Rightarrow> element \<times> world \<Rightarrow> (error + element) \<times> world" where
  "positions_loop E [] (rt, w) = (Inr rt, w)"
| "positions_loop E (p # ps) (rt, w) =
     (case annotate E p (rt, w) of
        (Inl e, w1) \<Rightarrow> (Inl e, w1)
      | (Inr rt1, w1) \<Rightarrow> positions_loop E ps (rt1, w1))"

text \<open>
  The elements that the loop visits: the \<^verbatim>\<open>Position\<close> children of the root, then
  the \<^verbatim>\<open>Position\<close> children of each \<^verbatim>\<open>Group\<close> child of the root.
\<close>

definition root_positions :: "element \<Rightarrow> ref list" where
  "root_positions rt = map (\<lambda>i. [i]) (findall rt (ustr ''Position''))"

definition group_positions :: "element \<Rightarrow> ref list" where
  "group_positions rt =
     concat (map (\<lambda>g. map (\<lambda>j. [g, j]) (findall (children rt ! g) (ustr ''Position'')))
                 (findall rt (ustr ''Group'')))"

definition all_positions :: "element \<Rightarrow> ref list" where
  "all_positions rt = root_positions rt @ group_positions rt"

text \<open>\<^verbatim>\<open>ET.parse(input_file)\<close> followed by \<^verbatim>\<open>getroot()\<close>.\<close>

definition ET_parse :: "world \<Rightarrow> ustring \<Rightarrow> error + element" where
  "ET_parse w input_file =
     (case files w input_file of
        None \<Rightarrow> Inl OSError
      | Some Malformed \<Rightarrow> Inl DocumentError
      | Some (Wellformed rt) \<Rightarrow> Inr rt)"

text \<open>
  \<^verbatim>\<open>modify_positions_xml\<close>. The tree is written back after the loop, and is taken to
  be written whole; then the message with the number of positions is printed.
\<close>

definition modify_positions_xml ::
  "env \<Rightarrow> world \<Rightarrow> ustring \<Rightarrow> (error + unit) \<times> world" where
  "modify_positions_xml E w input_file =
     (case ET_parse w input_file of
        Inl e \<Rightarrow> (Inl e, w)
      | Inr rt \<Rightarrow>
          (case positions_loop E (all_positions rt) (rt, w) of
             (Inl e, w1) \<Rightarrow> (Inl e, w1)
           | (Inr rt1, w1) \<Rightarrow>
               let w2 = w1\<lparr>files := (files w1)(input_file \<mapsto> Wellformed rt1)\<rparr>;
                   w3 = w2\<lparr>stdout := stdout w2 @
                          [Updated_positions (length (all_positions rt)) input_file]\<rparr> in
               (Inr (), w3)))"

text \<open>
  What an element holds itself, apart from its children: tag, attributes, text, tail
  and the number of children; \<open>own_at rt p\<close> is that of the element behind \<open>p\<close>.
\<close>

type_synonym own_data =
  "ustring \<times> (ustring \<times> ustring) list \<times> ustring option \<times> ustring option \<times> nat"

definition own :: "element \<Rightarrow> own_data" where
  "own e = (tag e, attrib e, elem_text e, elem_tail e, length (children e))"

definition own_at :: "element \<Rightarrow> ref \<Rightarrow> own_data option" where
  "own_at rt p = map_option own (elem_at rt p)"

definition attrib_at :: "element \<Rightarrow> ref \<Rightarrow> (ustring \<times> ustring) list option" where
  "attrib_at rt p = map_option attrib (elem_at rt p)"


text \<open>
  \<open>same_but ks o' o\<close>: the two elements agree in tag, text, tail and number of
  children, and in every attribute whose key is not in \<open>ks\<close>.
\<close>

definition same_but :: "ustring set \<Rightarrow> own_data \<Rightarrow> own_data \<Rightarrow> bool" where
  "same_but ks = (\<lambda>(t', a', x', l', n') (t, a, x, l, n).
     t' = t \<and> x' = x \<and> l' = l \<and> n' = n \<and> (\<forall>key. key \<notin> ks \<longrightarrow> map_of a' key = map_of a key))"


text \<open>
  The annotation of one record in the words of the specification: the
  \<^verbatim>\<open>DefaultCenter\<close> of the attributes \<open>a\<close> parses; an absent altitude counts as 0;
  the model, called with the decimal year of the \<open>n\<close>-th reading of the clock (the
  call is \<open>c\<close>), returns a declination; the attributes \<open>a'\<close> are \<open>a\<close> with
  \<^verbatim>\<open>MagneticVariation\<close> set to the text of the negated declination rounded to two
  decimals and \<^verbatim>\<open>Rotation\<close> set to \<^verbatim>\<open>0\<close>.
\<close>

definition annotated :: "env \<Rightarrow> nat \<Rightarrow> (ustring \<times> ustring) list \<Rightarrow>
    (ustring \<times> ustring) list \<Rightarrow> rat \<times> rat \<times> rat \<times> rat \<Rightarrow> bool" where
  "annotated E n a a' c =
     (\<exists>lat lon alt t d.
        parse_iso6709 (map_of a (ustr ''DefaultCenter'')) = Inr (lat, lon, alt) \<and>
        to_year_fraction (mktime E) (today E n) = Inr t \<and>
        calculate E lat lon (case alt of None \<Rightarrow> 0 | Some x \<Rightarrow> x) t = Inr d \<and>
        c = (lat, lon, (case alt of None \<Rightarrow> 0 | Some x \<Rightarrow> x), t) \<and>
        a' = dict_set
               (dict_set a (ustr ''MagneticVariation'') (float_str E (py_round (- d) 2)))
               (ustr ''Rotation'') (ustr ''0''))"

text \<open>Document order of two references: the lexicographic order of the paths.\<close>

definition doc_before :: "ref \<Rightarrow> ref \<Rightarrow> bool" where
  "doc_before p q = ((p, q) \<in> lexord {(i, j). i < j})"



section \<open>Inputs for concrete runs\<close>

text \<open>
  A platform on UTC whose clock advances by one second from one reading to the next,
  a stub of the field model that always returns a declination of 11.23 degrees, and
  \<^verbatim>\<open>str\<close> on the one float that then occurs.
\<close>

definition example_env :: env where
  "example_env =
     \<lparr>mktime = utc_mktime,
      today = (\<lambda>n. \<lparr>year = 2025, month = 1, day = 1, hour = 0, minute = 0,
                      second = int n, microsecond = 0\<rparr>),
      calculate = (\<lambda>glat glon alt t. Inr (1123 / 100)),
      float_str = (\<lambda>x. if x = - (1123 / 100) then ustr ''-11.23'' else ustr ''?'')\<rparr>"

definition world_with :: "element \<Rightarrow> world" where
  "world_with doc =
     \<lparr>files = [ustr ''Positions.xml'' \<mapsto> Wellformed doc], readings = 0, calls = [],
      stdout = []\<rparr>"

text \<open>An element \<^verbatim>\<open>Position\<close> with the given attributes and no children.\<close>

definition position_element :: "(string \<times> ustring) list \<Rightarrow> element" where
  "position_element a = Element (ustr ''Position'') (map (\<lambda>(k, v). (ustr k, v)) a) None None []"

text \<open>
  A document with a record under the root, a record in a group, and a record in a
  group inside a group.
\<close>

definition example_doc :: element where
  "example_doc =
     Element (ustr ''Positions'') [] None None
       [position_element [(''Name'', ustr ''A''), (''DefaultCenter'', ustr ''+123456.00-0654321.00'')],
        Element (ustr ''Group'') [(ustr ''Name'', ustr ''G'')] None None
          [position_element [(''Name'', ustr ''B''), (''DefaultCenter'', ustr ''+12.5-065.75'')],
           Element (ustr ''Group'') [] None None
             [position_element [(''Name'', ustr ''C''), (''DefaultCenter'', ustr ''+00-000'')]]]]"

text \<open>A document whose first record has a malformed coordinate and whose second has none.\<close>

definition malformed_doc :: element where
  "malformed_doc =
     Element (ustr ''Positions'') [] None None
       [position_element [(''Name'', ustr ''A''), (''DefaultCenter'', ustr ''abc'')],
        position_element [(''Name'', ustr ''B'')]]"


text \<open>
  A document with one record, whose coordinate is written with the Arabic-Indic digits
  12 and 065.
\<close>

definition arabic_doc :: element where
  "arabic_doc =
     Element (ustr ''Positions'') [] None None
       [position_element [(''DefaultCenter'', [43, 1633, 1634, 45, 1632, 1638, 1637])]]"


section \<open>The matcher finds exactly the language of the pattern\<close>

lemma takeWhile_prefix_set:
  assumes "k \<le> length (takeWhile P s)"
  shows "\<forall>x\<in>set (take k s). P x"
proof -
  have "take k s = take k (takeWhile P s)"
    using assms by (metis append_eq_conv_conj takeWhile_dropWhile_id take_all_iff take_append take_take min.absorb1 length_take)
  then show ?thesis
    by (metis in_set_takeD set_takeWhileD)
qed

lemma rmatch_sound:
  "(c, t) \<in> set (rmatch r s) \<Longrightarrow> \<exists>u\<in>lang r. s = u @ t"
proof (induction r arbitrary: s c t)
  case (Chars k)
  then show ?case by (auto split: list.splits if_splits)
next
  case (Seq a b)
  from Seq.prems obtain c1 t1 c2 where
    a: "(c1, t1) \<in> set (rmatch a s)" and b: "(c2, t) \<in> set (rmatch b t1)"
    by auto
  from Seq.IH(1)[OF a] obtain u1 where u1: "u1 \<in> lang a" "s = u1 @ t1" by blast
  from Seq.IH(2)[OF b] obtain u2 where u2: "u2 \<in> lang b" "t1 = u2 @ t" by blast
  have "u1 @ u2 \<in> lang (Seq a b)" using u1 u2 by auto
  moreover have "s = (u1 @ u2) @ t" using u1 u2 by simp
  ultimately show ?case by blast
next
  case (Opt a)
  then show ?case by auto
next
  case (Many cs)
  then obtain k where k: "1 \<le> k" "k \<le> length (takeWhile (in_cls cs) s)" "t = drop k s"
    by auto
  have "\<forall>x\<in>set (take k s). in_cls cs x"
    using takeWhile_prefix_set[OF k(2)] .
  moreover have "take k s \<noteq> []"
    using k(1,2) by (metis One_nat_def Suc_le_lessD le_zero_eq length_0_conv length_takeWhile_le less_le_trans not_less take_eq_Nil)
  ultimately have "take k s \<in> lang (Many cs)" by (auto simp: list_all_iff)
  moreover have "s = take k s @ t" using k(3) by simp
  ultimately show ?case by blast
next
  case (Group n a)
  then show ?case by auto
qed

lemma rmatch_complete:
  "u \<in> lang r \<Longrightarrow> \<exists>c. (c, t) \<in> set (rmatch r (u @ t))"
proof (induction r arbitrary: u t)
  case (Chars k)
  then show ?case by auto
next
  case (Seq a b)
  then obtain u1 u2 where u: "u = u1 @ u2" "u1 \<in> lang a" "u2 \<in> lang b" by auto
  from Seq.IH(1)[OF u(2), of "u2 @ t"] obtain c1 where c1: "(c1, u2 @ t) \<in> set (rmatch a (u1 @ u2 @ t))" by blast
  from Seq.IH(2)[OF u(3), of t] obtain c2 where c2: "(c2, t) \<in> set (rmatch b (u2 @ t))" by blast
  have "(c1 @ c2, t) \<in> set (rmatch (Seq a b) (u @ t))"
    using c1 c2 u(1) by force
  then show ?case by blast
next
  case (Opt a)
  then show ?case by (cases "u = []") auto
next
  case (Many cs)
  then have ne: "u \<noteq> []" and all: "\<forall>x\<in>set u. in_cls cs x" by (auto simp: list_all_iff)
  have "length u \<le> length (takeWhile (in_cls cs) (u @ t))"
    using all by (simp add: takeWhile_append2)
  moreover have "1 \<le> length u" using ne by (cases u) auto
  ultimately have "length u \<in> set (rev [1 ..< Suc (length (takeWhile (in_cls cs) (u @ t)))])"
    by (simp del: upt_Suc)
  then have "([], drop (length u) (u @ t)) \<in> set (rmatch (Many cs) (u @ t))"
    unfolding rmatch.simps set_map by (rule imageI)
  then show ?case by auto
next
  case (Group n a)
  from Group.IH[OF Group.prems[simplified], of t] obtain c where "(c, t) \<in> set (rmatch a (u @ t))" by blast
  then show ?case by force
qed

lemma fullmatch_lang: "(fullmatch r s \<noteq> None) = (s \<in> lang r)"
proof
  assume "fullmatch r s \<noteq> None"
  then obtain c where "(c, []) \<in> set (rmatch r s)"
    by (auto simp: fullmatch_def find_None_iff)
  from rmatch_sound[OF this] show "s \<in> lang r" by auto
next
  assume "s \<in> lang r"
  from rmatch_complete[OF this, of "[]"] obtain c where "(c, []) \<in> set (rmatch r s)" by auto
  then show "fullmatch r s \<noteq> None"
    by (auto simp: fullmatch_def find_None_iff)
qed

lemma fullmatch_in: "fullmatch r s = Some m \<Longrightarrow> (m, []) \<in> set (rmatch r s)"
  by (auto simp: fullmatch_def find_Some_iff) (metis nth_mem)

lemma captured_text:
  "(c, t) \<in> set (rmatch r s) \<Longrightarrow> (n, w) \<in> set c \<Longrightarrow> \<exists>a. (n, a) \<in> set (groups_of r) \<and> w \<in> lang a"
proof (induction r arbitrary: s c t)
  case (Chars cs)
  then show ?case by (auto split: list.splits if_splits)
next
  case (Seq a b)
  from Seq.prems(1) obtain c1 t1 c2 where
    a: "(c1, t1) \<in> set (rmatch a s)" and b: "(c2, t) \<in> set (rmatch b t1)" and c: "c = c1 @ c2"
    by auto
  from Seq.prems(2) c consider "(n, w) \<in> set c1" | "(n, w) \<in> set c2" by auto
  then show ?case
  proof cases
    case 1
    from Seq.IH(1)[OF a 1] show ?thesis by auto
  next
    case 2
    from Seq.IH(2)[OF b 2] show ?thesis by auto
  qed
next
  case (Opt a)
  then show ?case by auto
next
  case (Many cs)
  then show ?case by auto
next
  case (Group g a)
  from Group.prems(1) obtain c' where c': "(c', t) \<in> set (rmatch a s)" "c = (g, take (length s - length t) s) # c'"
    by auto
  from rmatch_sound[OF c'(1)] obtain u where u: "u \<in> lang a" "s = u @ t" by blast
  have tk: "take (length s - length t) s = u" using u(2) by simp
  from Group.prems(2) c'(2) consider "n = g \<and> w = u" | "(n, w) \<in> set c'" using tk by auto
  then show ?case
  proof cases
    case 1
    then show ?thesis using u(1) by auto
  next
    case 2
    from Group.IH[OF c'(1) 2] show ?thesis by auto
  qed
qed

lemma captured_must:
  "(c, t) \<in> set (rmatch r s) \<Longrightarrow> set (must r) \<subseteq> fst ` set c"
proof (induction r arbitrary: s c t)
  case (Seq a b)
  from Seq.prems(1) obtain c1 t1 c2 where
    a: "(c1, t1) \<in> set (rmatch a s)" and b: "(c2, t) \<in> set (rmatch b t1)" and c: "c = c1 @ c2"
    by auto
  from Seq.IH(1)[OF a] Seq.IH(2)[OF b] c show ?case by auto
next
  case (Group g a)
  from Group.prems(1) obtain c' where c': "(c', t) \<in> set (rmatch a s)" "c = (g, take (length s - length t) s) # c'"
    by auto
  from Group.IH[OF c'(1)] c'(2) show ?case by auto
qed auto


section \<open>The pattern and the grammar of the specification\<close>

lemma lang_Seq: "lang (Seq a b) = conc (lang a) (lang b)"
  by (simp add: conc_def)

lemma lang_Opt: "lang (Opt a) = optional (lang a)"
  by (simp add: optional_def)

lemma lang_sign: "lang sign = sign_g"
  by (auto simp: sign_def sign_g_def ustr_def)

lemma lang_digit: "lang digit = digits_n 1"
proof -
  have "digits_n 1 = {[c] | c. is_digit c}"
    by (auto simp: digits_n_of_def length_Suc_conv)
  then show ?thesis
    unfolding digit_def lang.simps by simp
qed

lemma lang_dot: "lang (Chars (OneOf (ustr ''.''))) = {ustr ''.''}"
  by (auto simp: ustr_def)

lemma digits_n_Suc: "conc (digits_n 1) (digits_n n) = digits_n (Suc n)"
proof (rule set_eqI)
  fix w
  show "w \<in> conc (digits_n 1) (digits_n n) \<longleftrightarrow> w \<in> digits_n (Suc n)"
  proof
    assume "w \<in> conc (digits_n 1) (digits_n n)"
    then show "w \<in> digits_n (Suc n)"
      by (auto simp: conc_def digits_n_of_def)
  next
    assume "w \<in> digits_n (Suc n)"
    then obtain c u where w: "w = c # u" "length u = n" "is_digit c" "list_all is_digit u"
      by (auto simp: digits_n_of_def length_Suc_conv)
    then have "[c] \<in> digits_n 1" "u \<in> digits_n n" by (auto simp: digits_n_of_def)
    moreover have "w = [c] @ u" using w by simp
    ultimately show "w \<in> conc (digits_n 1) (digits_n n)"
      unfolding conc_def by blast
  qed
qed

lemma conc_assoc: "conc (conc A B) C = conc A (conc B C)"
proof (rule set_eqI)
  fix w
  show "w \<in> conc (conc A B) C \<longleftrightarrow> w \<in> conc A (conc B C)"
  proof
    assume "w \<in> conc (conc A B) C"
    then obtain a b c where "w = (a @ b) @ c" "a \<in> A" "b \<in> B" "c \<in> C"
      unfolding conc_def by blast
    then have "w = a @ (b @ c)" "a \<in> A" "b @ c \<in> conc B C"
      unfolding conc_def by auto
    then show "w \<in> conc A (conc B C)" unfolding conc_def by blast
  next
    assume "w \<in> conc A (conc B C)"
    then obtain a b c where "w = a @ (b @ c)" "a \<in> A" "b \<in> B" "c \<in> C"
      unfolding conc_def by blast
    then have "w = (a @ b) @ c" "a @ b \<in> conc A B" "c \<in> C"
      unfolding conc_def by auto
    then show "w \<in> conc (conc A B) C" unfolding conc_def by blast
  qed
qed

lemma in_cls_Decimal: "in_cls Decimal = is_digit"
  by (rule ext) simp

lemma lang_Many_digits: "lang (Many Decimal) = digits"
  by (simp add: digits_of_def in_cls_Decimal)

lemma lang_fraction: "lang fraction_re = optional (conc {ustr ''.''} digits)"
  by (simp only: fraction_re_def lang_Opt lang_Seq lang_Many_digits lang_dot)

lemma lang_field2: "lang field2 = field_g 2"
proof -
  have "lang field2 = conc (conc (digits_n 1) (digits_n 1)) (lang fraction_re)"
    by (simp only: field2_def lang_Seq lang_digit conc_assoc)
  also have "conc (digits_n 1) (digits_n 1) = digits_n 2"
    using digits_n_Suc[of 1] by (simp add: numeral_2_eq_2)
  finally show ?thesis by (simp add: field_of_def lang_fraction)
qed

lemma lang_field3: "lang field3 = field_g 3"
proof -
  have "lang field3 = conc (conc (digits_n 1) (conc (digits_n 1) (digits_n 1))) (lang fraction_re)"
    by (simp only: field3_def lang_Seq lang_digit conc_assoc)
  also have "conc (digits_n 1) (digits_n 1) = digits_n 2"
    using digits_n_Suc[of 1] by (simp add: numeral_2_eq_2)
  also have "conc (digits_n 1) (digits_n 2) = digits_n 3"
    using digits_n_Suc[of 2] by (simp add: numeral_3_eq_3)
  finally show ?thesis by (simp add: field_of_def lang_fraction)
qed

lemma lang_altitude: "lang altitude_re = alt_g"
  by (simp only: altitude_re_def lang_Seq lang_sign lang_Many_digits lang_fraction alt_of_def)

lemma lang_pattern: "lang pattern = coordinate"
  by (simp only: pattern_def coordinate_of_def lang_Seq lang_Opt lang.simps(5)
        lang_sign lang_field2 lang_field3 lang_altitude)

lemma lang_axis_re2: "lang (axis_re field2 t) = axis_g 2 t"
  by (cases t) (simp_all only: axis_re.simps axis_g.simps lang_Seq lang_field2)

lemma lang_axis_re3: "lang (axis_re field3 t) = axis_g 3 t"
  by (cases t) (simp_all only: axis_re.simps axis_g.simps lang_Seq lang_field2 lang_field3)

lemma lang_tiers_re: "lang (tiers_re t1 t2) = tiers_g t1 t2"
  by (simp only: tiers_re_def tiers_g_def lang_Seq lang_Opt lang_sign lang_axis_re2
        lang_axis_re3 lang_altitude)


section \<open>The groups of a match hold numerals\<close>

lemma marks_not_digits:
  "\<not> is_digit (cp CHR ''.'')" "\<not> is_digit (cp CHR ''+'')" "\<not> is_digit (cp CHR ''-'')"
  by code_simp+

lemma is_digit_not_mark:
  "is_digit c \<Longrightarrow> c \<noteq> cp CHR ''.'' \<and> c \<noteq> cp CHR ''+'' \<and> c \<noteq> cp CHR ''-''"
  using marks_not_digits by auto

lemma decimal_int:
  assumes "ip \<noteq> []" "list_all is_digit ip"
  shows "decimal ip = Some (of_nat (digits_val ip))"
proof -
  have tw: "takeWhile is_digit ip = ip" and dw: "dropWhile is_digit ip = []"
    using assms(2) by (auto simp: list_all_iff)
  show ?thesis unfolding decimal_def Let_def tw dw using assms(1) by simp
qed

lemma decimal_frac:
  assumes "ip \<noteq> []" "list_all is_digit ip" "fp \<noteq> []" "list_all is_digit fp"
  shows "decimal (ip @ cp CHR ''.'' # fp) =
           Some (of_nat (digits_val ip) + of_nat (digits_val fp) / 10 ^ length fp)"
proof -
  have nd: "\<not> is_digit (cp CHR ''.'')" by (rule marks_not_digits)
  have tw: "takeWhile is_digit (ip @ cp CHR ''.'' # fp) = ip"
    using assms(2) nd by (simp add: list_all_iff)
  have dw: "dropWhile is_digit (ip @ cp CHR ''.'' # fp) = cp CHR ''.'' # fp"
    using assms(2) nd by (simp add: list_all_iff)
  show ?thesis unfolding decimal_def Let_def tw dw using assms(1,3,4) by simp
qed

lemma decimal_digits_fraction:
  assumes "ip \<noteq> []" "list_all is_digit ip" "r \<in> optional (conc {ustr ''.''} digits)"
  shows "\<exists>q. decimal (ip @ r) = Some q"
proof (cases "r = []")
  case True
  then show ?thesis using decimal_int[OF assms(1,2)] by simp
next
  case False
  then obtain fp where "r = cp CHR ''.'' # fp" "fp \<noteq> []" "list_all is_digit fp"
    using assms(3) by (auto simp: optional_def conc_def digits_of_def ustr_def)
  then show ?thesis using decimal_frac[OF assms(1,2)] by simp
qed

lemma signed_decimal_field:
  assumes "w \<in> field_g n" "0 < n"
  shows "\<exists>q. signed_decimal w = Some q \<and> w \<noteq> []"
proof -
  from assms(1) obtain ip r where w: "w = ip @ r" "length ip = n" "list_all is_digit ip"
      "r \<in> optional (conc {ustr ''.''} digits)"
    by (auto simp: field_of_def conc_def digits_n_of_def)
  from w(2) assms(2) obtain c u where ip: "ip = c # u" by (cases ip) auto
  then have c: "is_digit c" using w(3) by simp
  have ne: "ip \<noteq> []" using ip by simp
  from decimal_digits_fraction[OF ne w(3,4)] obtain q where "decimal w = Some q"
    using w(1) by auto
  moreover have "signed_decimal w = decimal w"
    using is_digit_not_mark[OF c] w(1) ip by (simp add: signed_decimal_def)
  ultimately show ?thesis using w(1) ip by simp
qed

lemma signed_decimal_altitude:
  assumes "w \<in> alt_g"
  shows "\<exists>q. signed_decimal w = Some q \<and> w \<noteq> []"
proof -
  from assms obtain c ip r where w: "w = c # ip @ r" "c = cp CHR ''+'' \<or> c = cp CHR ''-''"
      "ip \<noteq> []" "list_all is_digit ip" "r \<in> optional (conc {ustr ''.''} digits)"
    by (auto simp: alt_of_def conc_def sign_g_def digits_of_def ustr_def)
  from decimal_digits_fraction[OF w(3,4,5)] obtain q where "decimal (ip @ r) = Some q"
    by auto
  then show ?thesis using w(1,2) by (auto simp: signed_decimal_def)
qed

lemma groups_of_pattern:
  "groups_of pattern =
     [(''lat_sign'', sign), (''lat_deg'', field2), (''lat_min'', field2), (''lat_sec'', field2),
      (''lon_sign'', sign), (''lon_deg'', field3), (''lon_min'', field2), (''lon_sec'', field2),
      (''alt'', altitude_re)]"
  by (simp add: pattern_def sign_def field2_def field3_def altitude_re_def digit_def fraction_re_def)

lemma must_pattern: "must pattern = [''lat_sign'', ''lat_deg'', ''lon_sign'', ''lon_deg'']"
  by (simp add: pattern_def sign_def field2_def field3_def digit_def fraction_re_def)

lemma group_lang:
  assumes "fullmatch pattern s = Some m" "group m n = Some w"
  shows "(n, w) \<in> set m \<and> (\<exists>a. (n, a) \<in> set (groups_of pattern) \<and> w \<in> lang a)"
proof -
  have "(n, w) \<in> set m" using assms(2) by (simp add: group_def map_of_SomeD)
  then show ?thesis using captured_text[OF fullmatch_in[OF assms(1)]] by blast
qed

lemma group_field:
  assumes "fullmatch pattern s = Some m" "group m n = Some w"
    and "n \<in> {''lat_deg'', ''lat_min'', ''lat_sec'', ''lon_deg'', ''lon_min'', ''lon_sec''}"
  shows "\<exists>q. signed_decimal w = Some q \<and> w \<noteq> []"
proof -
  from group_lang[OF assms(1,2)] obtain a where a: "(n, a) \<in> set (groups_of pattern)" "w \<in> lang a"
    by blast
  from a(1) assms(3) have "a = field2 \<or> a = field3"
    unfolding groups_of_pattern by auto
  then have "w \<in> field_g 2 \<or> w \<in> field_g 3" using a(2) lang_field2 lang_field3 by auto
  then show ?thesis using signed_decimal_field[of w 2] signed_decimal_field[of w 3] by auto
qed

lemma group_altitude:
  assumes "fullmatch pattern s = Some m" "group m ''alt'' = Some w"
  shows "\<exists>q. signed_decimal w = Some q \<and> w \<noteq> []"
proof -
  from group_lang[OF assms(1,2)] obtain a where a: "(''alt'', a) \<in> set (groups_of pattern)" "w \<in> lang a"
    by blast
  from a(1) have "a = altitude_re"
    unfolding groups_of_pattern by auto
  then show ?thesis using a(2) lang_altitude signed_decimal_altitude by auto
qed

lemma group_must:
  assumes "fullmatch pattern s = Some m" "n \<in> set (must pattern)"
  shows "\<exists>w. group m n = Some w"
proof -
  from captured_must[OF fullmatch_in[OF assms(1)]] assms(2) have "n \<in> fst ` set m" by blast
  then have "map_of m n \<noteq> None" by (simp add: map_of_eq_None_iff)
  then show ?thesis by (auto simp: group_def)
qed

lemma bind_err_Inr: "bind_err (Inr x) f = f x"
  by (simp add: bind_err_def)

lemma py_float_text:
  "signed_decimal w = Some q \<Longrightarrow> py_float (Some w) = Inr q"
  by (simp add: py_float_def)

lemma axis_value:
  assumes "gm = None \<or> (\<exists>w q. gm = Some w \<and> w \<noteq> [] \<and> signed_decimal w = Some q)"
    and "gs = None \<or> (\<exists>w q. gs = Some w \<and> w \<noteq> [] \<and> signed_decimal w = Some q)"
  shows "(if truthy gm then
            bind_err (py_float gm) (\<lambda>mn.
            if truthy gs then
              bind_err (py_float gs) (\<lambda>sc. Inr (sg * (dg + mn / 60 + sc / 3600)))
            else Inr (sg * (dg + mn / 60)))
          else Inr (sg * dg))
         = Inr (tier_value sg dg (text_value gm) (text_value gs))"
  using assms
  by (auto simp: truthy_def bind_err_def py_float_def tier_value_def text_value_def)

lemma altitude_value:
  assumes "ga = None \<or> (\<exists>w q. ga = Some w \<and> w \<noteq> [] \<and> signed_decimal w = Some q)"
  shows "(if truthy ga then map_sum id Some (py_float ga) else Inr None) = Inr (text_value ga)"
  using assms
  by (auto simp: truthy_def py_float_def text_value_def)

lemma optional_group:
  assumes "fullmatch pattern s = Some m"
    and "n \<in> {''lat_deg'', ''lat_min'', ''lat_sec'', ''lon_deg'', ''lon_min'', ''lon_sec'', ''alt''}"
  shows "group m n = None \<or> (\<exists>w q. group m n = Some w \<and> w \<noteq> [] \<and> signed_decimal w = Some q)"
proof (cases "group m n")
  case None
  then show ?thesis by simp
next
  case (Some w)
  show ?thesis
  proof (cases "n = ''alt''")
    case True
    with group_altitude[OF assms(1)] Some show ?thesis by auto
  next
    case False
    with assms(2) have "n \<in> {''lat_deg'', ''lat_min'', ''lat_sec'', ''lon_deg'', ''lon_min'', ''lon_sec''}"
      by auto
    from group_field[OF assms(1) Some this] Some show ?thesis by auto
  qed
qed

lemma parse_of_match:
  assumes m: "fullmatch pattern s = Some m"
  shows "\<exists>lat_deg lon_deg.
           text_value (group m ''lat_deg'') = Some lat_deg \<and>
           text_value (group m ''lon_deg'') = Some lon_deg \<and>
           parse_iso6709 (Some s) =
             Inr (tier_value (sign_value (group m ''lat_sign'')) lat_deg
                    (text_value (group m ''lat_min'')) (text_value (group m ''lat_sec'')),
                  tier_value (sign_value (group m ''lon_sign'')) lon_deg
                    (text_value (group m ''lon_min'')) (text_value (group m ''lon_sec'')),
                  text_value (group m ''alt''))"
proof -
  obtain w1 where w1: "group m ''lat_deg'' = Some w1"
    using group_must[OF m, of "''lat_deg''"] by (auto simp: must_pattern)
  obtain w2 where w2: "group m ''lon_deg'' = Some w2"
    using group_must[OF m, of "''lon_deg''"] by (auto simp: must_pattern)
  obtain d1 where d1: "signed_decimal w1 = Some d1"
    using group_field[OF m w1] by auto
  obtain d2 where d2: "signed_decimal w2 = Some d2"
    using group_field[OF m w2] by auto
  have o1: "group m ''lat_min'' = None \<or>
      (\<exists>w q. group m ''lat_min'' = Some w \<and> w \<noteq> [] \<and> signed_decimal w = Some q)"
    by (rule optional_group[OF m]) simp
  have o2: "group m ''lat_sec'' = None \<or>
      (\<exists>w q. group m ''lat_sec'' = Some w \<and> w \<noteq> [] \<and> signed_decimal w = Some q)"
    by (rule optional_group[OF m]) simp
  have o3: "group m ''lon_min'' = None \<or>
      (\<exists>w q. group m ''lon_min'' = Some w \<and> w \<noteq> [] \<and> signed_decimal w = Some q)"
    by (rule optional_group[OF m]) simp
  have o4: "group m ''lon_sec'' = None \<or>
      (\<exists>w q. group m ''lon_sec'' = Some w \<and> w \<noteq> [] \<and> signed_decimal w = Some q)"
    by (rule optional_group[OF m]) simp
  have o5: "group m ''alt'' = None \<or>
      (\<exists>w q. group m ''alt'' = Some w \<and> w \<noteq> [] \<and> signed_decimal w = Some q)"
    by (rule optional_group[OF m]) simp
  have "parse_iso6709 (Some s) =
             Inr (tier_value (sign_value (group m ''lat_sign'')) d1
                    (text_value (group m ''lat_min'')) (text_value (group m ''lat_sec'')),
                  tier_value (sign_value (group m ''lon_sign'')) d2
                    (text_value (group m ''lon_min'')) (text_value (group m ''lon_sec'')),
                  text_value (group m ''alt''))"
    unfolding parse_iso6709_def
    by (simp only: option.case m Let_def w1 w2 py_float_text[OF d1] py_float_text[OF d2]
          axis_value[OF o1 o2] axis_value[OF o3 o4] altitude_value[OF o5]
          bind_err_Inr sign_value_def)
  then show ?thesis using w1 w2 d1 d2 by (simp add: text_value_def)
qed

section \<open>The parser: acceptance, rejection and decoding\<close>

lemma parse_accepts:
  assumes "s \<in> coordinate"
  shows "\<exists>m lat_deg lon_deg.
           fullmatch pattern s = Some m \<and>
           text_value (group m ''lat_deg'') = Some lat_deg \<and>
           text_value (group m ''lon_deg'') = Some lon_deg \<and>
           parse_iso6709 (Some s) =
             Inr (tier_value (sign_value (group m ''lat_sign'')) lat_deg
                    (text_value (group m ''lat_min'')) (text_value (group m ''lat_sec'')),
                  tier_value (sign_value (group m ''lon_sign'')) lon_deg
                    (text_value (group m ''lon_min'')) (text_value (group m ''lon_sec'')),
                  text_value (group m ''alt''))"
proof -
  from assms have "fullmatch pattern s \<noteq> None"
    by (simp only: fullmatch_lang lang_pattern)
  then obtain m where m: "fullmatch pattern s = Some m" by auto
  from parse_of_match[OF m] m show ?thesis by blast
qed

lemma parse_rejects:
  assumes "s \<notin> coordinate"
  shows "parse_iso6709 (Some s) = Inl (ValueError (ustr ''Invalid ISO 6709 coordinate format: '' @ s))"
proof -
  from assms have "fullmatch pattern s = None"
    using fullmatch_lang[of pattern s] by (simp add: lang_pattern)
  then show ?thesis by (simp add: parse_iso6709_def)
qed

lemma parse_fails_iff: "(\<exists>e. parse_iso6709 (Some s) = Inl e) \<longleftrightarrow> s \<notin> coordinate"
proof
  assume "\<exists>e. parse_iso6709 (Some s) = Inl e"
  then show "s \<notin> coordinate" using parse_accepts[of s] by auto
next
  assume "s \<notin> coordinate"
  then show "\<exists>e. parse_iso6709 (Some s) = Inl e" using parse_rejects by blast
qed

lemma coordinate_code: "(s \<in> coordinate) = (fullmatch pattern s \<noteq> None)"
  by (simp only: fullmatch_lang lang_pattern)

lemma tiers_g_code: "(s \<in> tiers_g t1 t2) = (fullmatch (tiers_re t1 t2) s \<noteq> None)"
  by (simp only: fullmatch_lang lang_tiers_re)

subsection \<open>The grammar with the digits 0 to 9 and the grammar with all decimal digits\<close>

lemma ascii_digit_is_digit: "ascii_digit c \<Longrightarrow> is_digit c"
  by (simp add: ascii_digit_def is_digit_def decimal_digit_def nd_zeros_def)

lemma is_digit_run:
  assumes "is_digit c"
  shows "\<exists>z\<in>set nd_zeros. z \<le> c \<and> c < z + 10"
proof -
  from assms obtain z where "find (\<lambda>z. z \<le> c \<and> c < z + 10) nd_zeros = Some z"
    by (auto simp: is_digit_def decimal_digit_def split: option.splits)
  then show ?thesis by (auto simp: find_Some_iff)
qed

lemma is_digit_below_128: "is_digit c \<Longrightarrow> c < 128 \<Longrightarrow> ascii_digit c"
  using is_digit_run[of c] by (auto simp: nd_zeros_def ascii_digit_def)

lemma conc_transfer:
  assumes "w \<in> conc A B" "\<forall>c\<in>set w. P c"
    and "\<And>u. u \<in> A \<Longrightarrow> \<forall>c\<in>set u. P c \<Longrightarrow> u \<in> A'"
    and "\<And>v. v \<in> B \<Longrightarrow> \<forall>c\<in>set v. P c \<Longrightarrow> v \<in> B'"
  shows "w \<in> conc A' B'"
proof -
  from assms(1) obtain u v where w: "w = u @ v" "u \<in> A" "v \<in> B"
    unfolding conc_def by blast
  with assms(2) have "\<forall>c\<in>set u. P c" "\<forall>c\<in>set v. P c" by auto
  with w assms(3,4) have "u \<in> A'" "v \<in> B'" by auto
  with w(1) show ?thesis unfolding conc_def by blast
qed

lemma optional_transfer:
  assumes "w \<in> optional A" "\<forall>c\<in>set w. P c"
    and "\<And>u. u \<in> A \<Longrightarrow> \<forall>c\<in>set u. P c \<Longrightarrow> u \<in> A'"
  shows "w \<in> optional A'"
  using assms unfolding optional_def by auto

lemma digits_transfer:
  assumes "w \<in> digits_of D" "\<forall>c\<in>set w. D c \<longrightarrow> D' c"
  shows "w \<in> digits_of D'"
  using assms by (auto simp: digits_of_def list_all_iff)

lemma digits_n_transfer:
  assumes "w \<in> digits_n_of D n" "\<forall>c\<in>set w. D c \<longrightarrow> D' c"
  shows "w \<in> digits_n_of D' n"
  using assms by (auto simp: digits_n_of_def list_all_iff)

lemma fraction_transfer:
  assumes "w \<in> optional (conc {ustr ''.''} (digits_of D))" "\<forall>c\<in>set w. D c \<longrightarrow> D' c"
  shows "w \<in> optional (conc {ustr ''.''} (digits_of D'))"
proof (rule optional_transfer[OF assms])
  fix u assume u: "u \<in> conc {ustr ''.''} (digits_of D)" "\<forall>c\<in>set u. D c \<longrightarrow> D' c"
  show "u \<in> conc {ustr ''.''} (digits_of D')"
    by (rule conc_transfer[OF u]) (auto intro: digits_transfer)
qed

lemma field_transfer:
  assumes "w \<in> field_of D n" "\<forall>c\<in>set w. D c \<longrightarrow> D' c"
  shows "w \<in> field_of D' n"
  unfolding field_of_def
  by (rule conc_transfer[OF assms(1)[unfolded field_of_def] assms(2)])
     (auto intro: digits_n_transfer fraction_transfer)

lemma optional_field_transfer:
  assumes "w \<in> optional (field_of D n)" "\<forall>c\<in>set w. D c \<longrightarrow> D' c"
  shows "w \<in> optional (field_of D' n)"
  by (rule optional_transfer[OF assms]) (auto intro: field_transfer)

lemma alt_transfer:
  assumes "w \<in> alt_of D" "\<forall>c\<in>set w. D c \<longrightarrow> D' c"
  shows "w \<in> alt_of D'"
  unfolding alt_of_def
proof (rule conc_transfer[OF assms(1)[unfolded alt_of_def] assms(2)])
  fix v assume v: "v \<in> conc (digits_of D) (optional (conc {ustr ''.''} (digits_of D)))"
    "\<forall>c\<in>set v. D c \<longrightarrow> D' c"
  show "v \<in> conc (digits_of D') (optional (conc {ustr ''.''} (digits_of D')))"
    by (rule conc_transfer[OF v]) (auto intro: digits_transfer fraction_transfer)
qed

lemma optional_alt_transfer:
  assumes "w \<in> optional (alt_of D)" "\<forall>c\<in>set w. D c \<longrightarrow> D' c"
  shows "w \<in> optional (alt_of D')"
  by (rule optional_transfer[OF assms]) (auto intro: alt_transfer)

lemma tail_transfer:
  assumes "w \<in> conc (optional (field_of D 2)) (conc (optional (field_of D 2)) X)"
    "\<forall>c\<in>set w. D c \<longrightarrow> D' c"
    and "\<And>v. v \<in> X \<Longrightarrow> \<forall>c\<in>set v. D c \<longrightarrow> D' c \<Longrightarrow> v \<in> X'"
  shows "w \<in> conc (optional (field_of D' 2)) (conc (optional (field_of D' 2)) X')"
proof (rule conc_transfer[OF assms(1,2)])
  fix u assume "u \<in> optional (field_of D 2)" "\<forall>c\<in>set u. D c \<longrightarrow> D' c"
  then show "u \<in> optional (field_of D' 2)" by (rule optional_field_transfer)
next
  fix v assume v: "v \<in> conc (optional (field_of D 2)) X" "\<forall>c\<in>set v. D c \<longrightarrow> D' c"
  show "v \<in> conc (optional (field_of D' 2)) X'"
  proof (rule conc_transfer[OF v])
    fix u assume "u \<in> optional (field_of D 2)" "\<forall>c\<in>set u. D c \<longrightarrow> D' c"
    then show "u \<in> optional (field_of D' 2)" by (rule optional_field_transfer)
  next
    fix x assume "x \<in> X" "\<forall>c\<in>set x. D c \<longrightarrow> D' c"
    then show "x \<in> X'" by (rule assms(3))
  qed
qed

lemma axis_transfer:
  assumes "w \<in> conc sign_g (conc (field_of D n)
              (conc (optional (field_of D 2)) (conc (optional (field_of D 2)) X)))"
    "\<forall>c\<in>set w. D c \<longrightarrow> D' c"
    and "\<And>v. v \<in> X \<Longrightarrow> \<forall>c\<in>set v. D c \<longrightarrow> D' c \<Longrightarrow> v \<in> X'"
  shows "w \<in> conc sign_g (conc (field_of D' n)
              (conc (optional (field_of D' 2)) (conc (optional (field_of D' 2)) X')))"
proof (rule conc_transfer[OF assms(1,2)])
  fix u assume "u \<in> sign_g" then show "u \<in> sign_g" .
next
  fix v assume v: "v \<in> conc (field_of D n)
      (conc (optional (field_of D 2)) (conc (optional (field_of D 2)) X))"
    "\<forall>c\<in>set v. D c \<longrightarrow> D' c"
  show "v \<in> conc (field_of D' n)
      (conc (optional (field_of D' 2)) (conc (optional (field_of D' 2)) X'))"
  proof (rule conc_transfer[OF v])
    fix u assume "u \<in> field_of D n" "\<forall>c\<in>set u. D c \<longrightarrow> D' c"
    then show "u \<in> field_of D' n" by (rule field_transfer)
  next
    fix x assume "x \<in> conc (optional (field_of D 2)) (conc (optional (field_of D 2)) X)"
      "\<forall>c\<in>set x. D c \<longrightarrow> D' c"
    then show "x \<in> conc (optional (field_of D' 2)) (conc (optional (field_of D' 2)) X')"
      by (rule tail_transfer) (rule assms(3))
  qed
qed

lemma coordinate_transfer:
  assumes "w \<in> coordinate_of D" "\<forall>c\<in>set w. D c \<longrightarrow> D' c"
  shows "w \<in> coordinate_of D'"
  unfolding coordinate_of_def
proof (rule axis_transfer[OF assms(1)[unfolded coordinate_of_def] assms(2)])
  fix v assume "v \<in> conc sign_g (conc (field_of D 3)
      (conc (optional (field_of D 2)) (conc (optional (field_of D 2)) (optional (alt_of D)))))"
    "\<forall>c\<in>set v. D c \<longrightarrow> D' c"
  then show "v \<in> conc sign_g (conc (field_of D' 3)
      (conc (optional (field_of D' 2)) (conc (optional (field_of D' 2)) (optional (alt_of D')))))"
    by (rule axis_transfer) (rule optional_alt_transfer)
qed

lemma ascii_coordinate_subset: "s \<in> ascii_coordinate \<Longrightarrow> s \<in> coordinate"
  by (erule coordinate_transfer) (simp add: ascii_digit_is_digit)

lemma coordinate_ascii_text:
  assumes "\<forall>c\<in>set s. c < 128"
  shows "(s \<in> coordinate) = (s \<in> ascii_coordinate)"
proof
  assume "s \<in> coordinate"
  then show "s \<in> ascii_coordinate"
    by (rule coordinate_transfer) (use assms is_digit_below_128 in auto)
qed (rule ascii_coordinate_subset)

lemma coordinate_second:
  assumes "s \<in> coordinate_of D"
  shows "\<exists>c d t. s = c # d # t \<and> D d"
proof -
  from assms obtain u v w where s: "s = u @ v @ w" "u \<in> sign_g" "v \<in> field_of D 2"
    unfolding coordinate_of_def conc_def by blast
  from s(3) obtain x y where v: "v = x @ y" "length x = 2" "list_all D x"
    unfolding field_of_def conc_def digits_n_of_def by blast
  from v(2) obtain d e where x: "x = [d, e]"
    by (auto simp: length_Suc_conv numeral_2_eq_2)
  from s(2) obtain c where u: "u = [c]" by (auto simp: sign_g_def ustr_def)
  from s(1) u v x have "s = c # d # (e # y @ w)" "D d" by simp_all
  then show ?thesis by blast
qed

lemma arabic_not_ascii: "[43, 1633, 1634, 45, 1632, 1638, 1637] \<notin> ascii_coordinate"
proof
  assume "[43, 1633, 1634, 45, 1632, 1638, 1637] \<in> ascii_coordinate"
  from coordinate_second[OF this] have "ascii_digit 1633" by simp
  then show False by (simp add: ascii_digit_def)
qed

subsection \<open>Claims\<close>

text \<open>
  Claim C1. On every text of the grammar the parser returns, for each axis, the value
  of the tier rule applied to the texts of the groups of the match: the sign times the
  degrees, plus minutes/60 when the minutes are present, plus seconds/3600 when the
  seconds are present too; the altitude is the value of its group, or absent. On
  \<^verbatim>\<open>+123456.00-0654321.00\<close> this is latitude 12 + 34/60 + 56/3600 and longitude
  -(65 + 43/60 + 21/3600) without altitude; on \<^verbatim>\<open>+12.5-065.75\<close> it is 12.5 and
  -65.75 without altitude.
\<close>

theorem parse_iso6709_tier_rule:
  "(\<forall>s\<in>coordinate. \<exists>m lat_deg lon_deg.
       fullmatch pattern s = Some m \<and>
       text_value (group m ''lat_deg'') = Some lat_deg \<and>
       text_value (group m ''lon_deg'') = Some lon_deg \<and>
       parse_iso6709 (Some s) =
         Inr (tier_value (sign_value (group m ''lat_sign'')) lat_deg
                (text_value (group m ''lat_min'')) (text_value (group m ''lat_sec'')),
              tier_value (sign_value (group m ''lon_sign'')) lon_deg
                (text_value (group m ''lon_min'')) (text_value (group m ''lon_sec'')),
              text_value (group m ''alt'')))
   \<and> parse_iso6709 (Some (ustr ''+123456.00-0654321.00'')) =
       Inr (12 + 34 / 60 + 56 / 3600, - (65 + 43 / 60 + 21 / 3600), None)
   \<and> parse_iso6709 (Some (ustr ''+12.5-065.75'')) = Inr (12.5, - 65.75, None)"
proof (intro conjI ballI)
  fix s :: ustring assume "s \<in> coordinate"
  then show "\<exists>m lat_deg lon_deg.
       fullmatch pattern s = Some m \<and>
       text_value (group m ''lat_deg'') = Some lat_deg \<and>
       text_value (group m ''lon_deg'') = Some lon_deg \<and>
       parse_iso6709 (Some s) =
         Inr (tier_value (sign_value (group m ''lat_sign'')) lat_deg
                (text_value (group m ''lat_min'')) (text_value (group m ''lat_sec'')),
              tier_value (sign_value (group m ''lon_sign'')) lon_deg
                (text_value (group m ''lon_min'')) (text_value (group m ''lon_sec'')),
              text_value (group m ''alt''))"
    by (rule parse_accepts)
next
  show "parse_iso6709 (Some (ustr ''+123456.00-0654321.00'')) =
       Inr (12 + 34 / 60 + 56 / 3600, - (65 + 43 / 60 + 21 / 3600), None)"
    by code_simp
next
  show "parse_iso6709 (Some (ustr ''+12.5-065.75'')) = Inr (12.5, - 65.75, None)"
    by code_simp
qed

theorem parse_iso6709_tier_rule_witness:
  "ustr ''+1234.5-0654321+100.25'' \<in> coordinate \<and>
   (\<exists>m lat_deg lon_deg.
       fullmatch pattern (ustr ''+1234.5-0654321+100.25'') = Some m \<and>
       text_value (group m ''lat_deg'') = Some lat_deg \<and>
       text_value (group m ''lon_deg'') = Some lon_deg \<and>
       parse_iso6709 (Some (ustr ''+1234.5-0654321+100.25'')) =
         Inr (tier_value (sign_value (group m ''lat_sign'')) lat_deg
                (text_value (group m ''lat_min'')) (text_value (group m ''lat_sec'')),
              tier_value (sign_value (group m ''lon_sign'')) lon_deg
                (text_value (group m ''lon_min'')) (text_value (group m ''lon_sec'')),
              text_value (group m ''alt'')))
   \<and> parse_iso6709 (Some (ustr ''+1234.5-0654321+100.25'')) =
       Inr (12 + 34.5 / 60, - (65 + 43 / 60 + 21 / 3600), Some 100.25)"
proof -
  have mem: "ustr ''+1234.5-0654321+100.25'' \<in> coordinate"
    unfolding coordinate_code by code_simp
  have v: "parse_iso6709 (Some (ustr ''+1234.5-0654321+100.25'')) =
       Inr (12 + 34.5 / 60, - (65 + 43 / 60 + 21 / 3600), Some 100.25)"
    by code_simp
  from parse_iso6709_tier_rule mem v show ?thesis by blast
qed

text \<open>
  Claim C5 fails for the grammar with the digits 0 to 9: the text of code points
  \<^verbatim>\<open>+\<close>, U+0661, U+0662, \<^verbatim>\<open>-\<close>, U+0660, U+0666, U+0665 (the Arabic-Indic digits
  12 and 065) is not in that grammar, and the parser accepts it as latitude 12 and
  longitude -65.
\<close>

theorem unicode_digits_accepted:
  "[43, 1633, 1634, 45, 1632, 1638, 1637] \<notin> ascii_coordinate \<and>
   parse_iso6709 (Some [43, 1633, 1634, 45, 1632, 1638, 1637]) = Inr (12, - 65, None)"
proof
  show "[43, 1633, 1634, 45, 1632, 1638, 1637] \<notin> ascii_coordinate"
    by (rule arabic_not_ascii)
  show "parse_iso6709 (Some [43, 1633, 1634, 45, 1632, 1638, 1637]) = Inr (12, - 65, None)"
    by code_simp
qed

text \<open>
  Claim C5, as the program has it. With every decimal digit of Unicode counting as a
  digit, the parser fails exactly on the texts outside the grammar, and there the
  exception is the \<^verbatim>\<open>ValueError\<close> of the format check, whose message ends with the
  text itself. On a text of ASCII characters this grammar and the grammar with the
  digits 0 to 9 agree; \<^verbatim>\<open>12.5-065.75\<close>, without its leading sign, is rejected.
\<close>

theorem parse_iso6709_format_error:
  "((\<exists>e. parse_iso6709 (Some s) = Inl e) \<longleftrightarrow> s \<notin> coordinate)
   \<and> (s \<notin> coordinate \<longrightarrow>
        parse_iso6709 (Some s) =
          Inl (ValueError (ustr ''Invalid ISO 6709 coordinate format: '' @ s)))
   \<and> ((\<forall>c\<in>set s. c < 128) \<longrightarrow> (s \<in> coordinate) = (s \<in> ascii_coordinate))
   \<and> parse_iso6709 (Some (ustr ''12.5-065.75'')) =
        Inl (ValueError (ustr ''Invalid ISO 6709 coordinate format: 12.5-065.75''))"
proof (intro conjI impI)
  show "(\<exists>e. parse_iso6709 (Some s) = Inl e) \<longleftrightarrow> s \<notin> coordinate"
    by (rule parse_fails_iff)
next
  assume "s \<notin> coordinate"
  then show "parse_iso6709 (Some s) =
      Inl (ValueError (ustr ''Invalid ISO 6709 coordinate format: '' @ s))"
    by (rule parse_rejects)
next
  assume "\<forall>c\<in>set s. c < 128"
  then show "(s \<in> coordinate) = (s \<in> ascii_coordinate)" by (rule coordinate_ascii_text)
next
  show "parse_iso6709 (Some (ustr ''12.5-065.75'')) =
        Inl (ValueError (ustr ''Invalid ISO 6709 coordinate format: 12.5-065.75''))"
    by code_simp
qed

theorem parse_iso6709_format_error_witness:
  "ustr ''+12.5-065.75x'' \<notin> coordinate \<and> list_all (\<lambda>c. c < 128) (ustr ''+12.5-065.75x'') \<and>
   ustr ''+12.5-065.75x'' \<notin> ascii_coordinate \<and>
   parse_iso6709 (Some (ustr ''+12.5-065.75x'')) =
     Inl (ValueError (ustr ''Invalid ISO 6709 coordinate format: '' @ ustr ''+12.5-065.75x''))"
proof -
  have a: "ustr ''+12.5-065.75x'' \<notin> coordinate"
    unfolding coordinate_code by code_simp
  have b: "list_all (\<lambda>c. c < 128) (ustr ''+12.5-065.75x'')"
    by code_simp
  then have b': "\<forall>c\<in>set (ustr ''+12.5-065.75x''). c < 128"
    by (simp only: list_all_iff)
  note t = parse_iso6709_format_error[of "ustr ''+12.5-065.75x''"]
  from t a b' have c: "ustr ''+12.5-065.75x'' \<notin> ascii_coordinate" by blast
  from t a have d: "parse_iso6709 (Some (ustr ''+12.5-065.75x'')) =
     Inl (ValueError (ustr ''Invalid ISO 6709 coordinate format: '' @ ustr ''+12.5-065.75x''))"
    by blast
  show ?thesis by (rule conjI[OF a conjI[OF b conjI[OF c d]]])
qed

subsection \<open>Tiers\<close>

lemma conc_optional: "conc (optional A) B = B \<union> conc A B"
  unfolding conc_def optional_def by auto

lemma conc_Un_right: "conc A (B \<union> C) = conc A B \<union> conc A C"
  unfolding conc_def by auto

lemma tier_ex: "(\<exists>t. P t) = (P Degrees \<or> P Minutes \<or> P Seconds)"
  by (metis tier.exhaust)

lemma axis_tiers:
  "conc (field_g n) (conc (optional (field_g 2)) (conc (optional (field_g 2)) X)) =
     conc (axis_g n Degrees) X \<union> conc (axis_g n Minutes) X \<union> conc (axis_g n Seconds) X"
  by (simp only: conc_optional conc_Un_right axis_g.simps conc_assoc) blast

lemma coordinate_tiers: "(s \<in> coordinate) = (\<exists>t1 t2. s \<in> tiers_g t1 t2)"
proof -
  have "coordinate =
      (\<Union>t1\<in>{Degrees, Minutes, Seconds}. \<Union>t2\<in>{Degrees, Minutes, Seconds}. tiers_g t1 t2)"
    unfolding coordinate_of_def tiers_g_def
    by (simp only: axis_tiers conc_Un_right) (simp add: Un_ac)
  then show ?thesis by (simp only: tier_ex) blast
qed

lemma sign_chars: "in_cls (OneOf (ustr ''+-'')) c = (c = cp CHR ''+'' \<or> c = cp CHR ''-'')"
  by (auto simp: ustr_def)

lemma dot_char: "in_cls (OneOf (ustr ''.'')) c = (c = cp CHR ''.'')"
  by (auto simp: ustr_def)

lemma fullmatch_minutes_degrees:
  assumes d: "is_digit a" "is_digit b" "is_digit e" "is_digit f" "is_digit g" "is_digit h" "is_digit i"
    and s: "c1 = cp CHR ''+'' \<or> c1 = cp CHR ''-''" "c2 = cp CHR ''+'' \<or> c2 = cp CHR ''-''"
  shows "fullmatch pattern [c1, a, b, e, f, c2, g, h, i] =
           Some [(''lat_sign'', [c1]), (''lat_deg'', [a, b]), (''lat_min'', [e, f]),
                 (''lon_sign'', [c2]), (''lon_deg'', [g, h, i])]"
proof -
  have n: "\<not> is_digit c2" "c2 \<noteq> cp CHR ''.''" "a \<noteq> cp CHR ''.''" "b \<noteq> cp CHR ''.''"
    "e \<noteq> cp CHR ''.''" "f \<noteq> cp CHR ''.''" "g \<noteq> cp CHR ''.''" "h \<noteq> cp CHR ''.''" "i \<noteq> cp CHR ''.''"
    using s d marks_not_digits is_digit_not_mark by (auto simp: cp_def)
  show ?thesis
    unfolding fullmatch_def pattern_def field2_def field3_def altitude_re_def fraction_re_def
      digit_def sign_def
    using d s n
    by (simp add: sign_chars dot_char del: in_cls.simps(1))
qed

lemma digits_value:
  assumes "list_all is_digit w" "w \<noteq> []"
  shows "text_value (Some w) = Some (of_nat (digits_val w))"
proof -
  from assms obtain c u where w: "w = c # u" "is_digit c" by (cases w) auto
  from is_digit_not_mark[OF w(2)] w(1) have "signed_decimal w = decimal w"
    by (simp add: signed_decimal_def)
  with decimal_int[OF assms(2,1)] show ?thesis by (simp add: text_value_def)
qed

lemma parse_minutes_degrees:
  assumes d: "is_digit a" "is_digit b" "is_digit e" "is_digit f" "is_digit g" "is_digit h" "is_digit i"
    and s: "c1 = cp CHR ''+'' \<or> c1 = cp CHR ''-''" "c2 = cp CHR ''+'' \<or> c2 = cp CHR ''-''"
  shows "parse_iso6709 (Some [c1, a, b, e, f, c2, g, h, i]) =
           Inr (sign_value (Some [c1]) *
                  (of_nat (10 * digit_val a + digit_val b) +
                   of_nat (10 * digit_val e + digit_val f) / 60),
                sign_value (Some [c2]) *
                  of_nat (100 * digit_val g + 10 * digit_val h + digit_val i),
                None)"
proof -
  let ?m = "[(''lat_sign'', [c1]), (''lat_deg'', [a, b]), (''lat_min'', [e, f]),
             (''lon_sign'', [c2]), (''lon_deg'', [g, h, i])]"
  have m: "fullmatch pattern [c1, a, b, e, f, c2, g, h, i] = Some ?m"
    by (rule fullmatch_minutes_degrees[OF d s])
  have v: "text_value (Some [a, b]) = Some (of_nat (10 * digit_val a + digit_val b))"
    "text_value (Some [e, f]) = Some (of_nat (10 * digit_val e + digit_val f))"
    "text_value (Some [g, h, i]) = Some (of_nat (100 * digit_val g + 10 * digit_val h + digit_val i))"
    using d by (simp_all add: digits_value digits_val_def)
  from parse_of_match[OF m] v show ?thesis
    by (simp add: group_def tier_value_def text_value_def)
qed

text \<open>
  Claim C6 fails: the text \<^verbatim>\<open>+1234-065\<close> has minutes in its latitude and only
  degrees in its longitude, it is reducible to no single tier, and the parser accepts
  it, as latitude 12 + 34/60 and longitude -65.
\<close>

theorem mixed_tier_accepted:
  "ustr ''+1234-065'' \<in> tiers_g Minutes Degrees \<and> ustr ''+1234-065'' \<notin> one_tier \<and>
   parse_iso6709 (Some (ustr ''+1234-065'')) = Inr (12 + 34 / 60, - 65, None)"
proof (intro conjI)
  show "ustr ''+1234-065'' \<in> tiers_g Minutes Degrees"
    unfolding tiers_g_code by code_simp
  show "ustr ''+1234-065'' \<notin> one_tier"
    unfolding one_tier_def Un_iff tiers_g_code by code_simp
  show "parse_iso6709 (Some (ustr ''+1234-065'')) = Inr (12 + 34 / 60, - 65, None)"
    by code_simp
qed

text \<open>
  Claim C6, as the program has it. The two axes are matched separately. A text in
  which the latitude is in none of the three tiers, or the longitude is in none of
  them, or what follows is no altitude, is rejected with the \<^verbatim>\<open>ValueError\<close> of the
  format check. A text whose latitude is in some tier and whose longitude is in some
  tier, the same or not, is accepted, and each axis is decoded by the tier rule from
  its own groups of minutes and seconds. In particular every text of a sign, two
  digits of degrees, two digits of minutes, a sign and three digits of degrees is
  decoded as degrees + minutes/60 for the latitude and as degrees for the longitude.
\<close>

theorem parse_iso6709_tiers:
  "((\<forall>t1 t2. s \<notin> tiers_g t1 t2) \<longrightarrow>
      parse_iso6709 (Some s) =
        Inl (ValueError (ustr ''Invalid ISO 6709 coordinate format: '' @ s)))
   \<and> ((\<exists>t1 t2. s \<in> tiers_g t1 t2) \<longrightarrow>
        (\<exists>m lat_deg lon_deg.
           fullmatch pattern s = Some m \<and>
           text_value (group m ''lat_deg'') = Some lat_deg \<and>
           text_value (group m ''lon_deg'') = Some lon_deg \<and>
           parse_iso6709 (Some s) =
             Inr (tier_value (sign_value (group m ''lat_sign'')) lat_deg
                    (text_value (group m ''lat_min'')) (text_value (group m ''lat_sec'')),
                  tier_value (sign_value (group m ''lon_sign'')) lon_deg
                    (text_value (group m ''lon_min'')) (text_value (group m ''lon_sec'')),
                  text_value (group m ''alt''))))
   \<and> (is_digit a \<and> is_digit b \<and> is_digit e \<and> is_digit f \<and>
       is_digit g \<and> is_digit h \<and> is_digit i \<and>
       (c1 = cp CHR ''+'' \<or> c1 = cp CHR ''-'') \<and> (c2 = cp CHR ''+'' \<or> c2 = cp CHR ''-'') \<longrightarrow>
        parse_iso6709 (Some [c1, a, b, e, f, c2, g, h, i]) =
           Inr (sign_value (Some [c1]) *
                  (of_nat (10 * digit_val a + digit_val b) +
                   of_nat (10 * digit_val e + digit_val f) / 60),
                sign_value (Some [c2]) *
                  of_nat (100 * digit_val g + 10 * digit_val h + digit_val i),
                None))"
proof (intro conjI impI)
  assume "\<forall>t1 t2. s \<notin> tiers_g t1 t2"
  then have "s \<notin> coordinate" by (simp add: coordinate_tiers)
  then show "parse_iso6709 (Some s) =
      Inl (ValueError (ustr ''Invalid ISO 6709 coordinate format: '' @ s))"
    by (rule parse_rejects)
next
  assume "\<exists>t1 t2. s \<in> tiers_g t1 t2"
  then have "s \<in> coordinate" by (simp add: coordinate_tiers)
  then show "\<exists>m lat_deg lon_deg.
           fullmatch pattern s = Some m \<and>
           text_value (group m ''lat_deg'') = Some lat_deg \<and>
           text_value (group m ''lon_deg'') = Some lon_deg \<and>
           parse_iso6709 (Some s) =
             Inr (tier_value (sign_value (group m ''lat_sign'')) lat_deg
                    (text_value (group m ''lat_min'')) (text_value (group m ''lat_sec'')),
                  tier_value (sign_value (group m ''lon_sign'')) lon_deg
                    (text_value (group m ''lon_min'')) (text_value (group m ''lon_sec'')),
                  text_value (group m ''alt''))"
    by (rule parse_accepts)
next
  assume "is_digit a \<and> is_digit b \<and> is_digit e \<and> is_digit f \<and>
       is_digit g \<and> is_digit h \<and> is_digit i \<and>
       (c1 = cp CHR ''+'' \<or> c1 = cp CHR ''-'') \<and> (c2 = cp CHR ''+'' \<or> c2 = cp CHR ''-'')"
  then show "parse_iso6709 (Some [c1, a, b, e, f, c2, g, h, i]) =
           Inr (sign_value (Some [c1]) *
                  (of_nat (10 * digit_val a + digit_val b) +
                   of_nat (10 * digit_val e + digit_val f) / 60),
                sign_value (Some [c2]) *
                  of_nat (100 * digit_val g + 10 * digit_val h + digit_val i),
                None)"
    by (intro parse_minutes_degrees) blast+
qed

theorem parse_iso6709_tiers_witness:
  "ustr ''+1234-0654321'' \<in> tiers_g Minutes Seconds \<and>
   (\<exists>m lat_deg lon_deg.
      fullmatch pattern (ustr ''+1234-0654321'') = Some m \<and>
      text_value (group m ''lat_deg'') = Some lat_deg \<and>
      text_value (group m ''lon_deg'') = Some lon_deg \<and>
      parse_iso6709 (Some (ustr ''+1234-0654321'')) =
        Inr (tier_value (sign_value (group m ''lat_sign'')) lat_deg
               (text_value (group m ''lat_min'')) (text_value (group m ''lat_sec'')),
             tier_value (sign_value (group m ''lon_sign'')) lon_deg
               (text_value (group m ''lon_min'')) (text_value (group m ''lon_sec'')),
             text_value (group m ''alt''))) \<and>
   (\<forall>t1 t2. ustr ''+1234'' \<notin> tiers_g t1 t2) \<and>
   parse_iso6709 (Some (ustr ''+1234'')) =
     Inl (ValueError (ustr ''Invalid ISO 6709 coordinate format: '' @ ustr ''+1234'')) \<and>
   is_digit 49 \<and> is_digit 1634 \<and>
   parse_iso6709 (Some [45, 49, 1634, 49, 49, 43, 49, 49, 1634]) =
     Inr (sign_value (Some [45]) *
            (of_nat (10 * digit_val 49 + digit_val 1634) +
             of_nat (10 * digit_val 49 + digit_val 49) / 60),
          sign_value (Some [43]) *
            of_nat (100 * digit_val 49 + 10 * digit_val 49 + digit_val 1634),
          None)"
proof -
  have a: "ustr ''+1234-0654321'' \<in> tiers_g Minutes Seconds"
    unfolding tiers_g_code by code_simp
  have "ustr ''+1234'' \<notin> coordinate"
    unfolding coordinate_code by code_simp
  then have b: "\<forall>t1 t2. ustr ''+1234'' \<notin> tiers_g t1 t2"
    by (simp add: coordinate_tiers)
  have c: "is_digit 49" "is_digit 1634" by code_simp+
  have s: "(45::int) = cp CHR ''+'' \<or> (45::int) = cp CHR ''-''"
    "(43::int) = cp CHR ''+'' \<or> (43::int) = cp CHR ''-''"
    by (simp_all add: cp_def)
  note t1 = parse_iso6709_tiers[of "ustr ''+1234-0654321''"]
  note t2 = parse_iso6709_tiers[of "ustr ''+1234''"]
  note t3 = parse_iso6709_tiers[where a = 49 and b = 1634 and e = 49 and f = 49 and g = 49
      and h = 49 and i = 1634 and ?c1.0 = 45 and ?c2.0 = 43]
  have r1: "\<exists>m lat_deg lon_deg.
      fullmatch pattern (ustr ''+1234-0654321'') = Some m \<and>
      text_value (group m ''lat_deg'') = Some lat_deg \<and>
      text_value (group m ''lon_deg'') = Some lon_deg \<and>
      parse_iso6709 (Some (ustr ''+1234-0654321'')) =
        Inr (tier_value (sign_value (group m ''lat_sign'')) lat_deg
               (text_value (group m ''lat_min'')) (text_value (group m ''lat_sec'')),
             tier_value (sign_value (group m ''lon_sign'')) lon_deg
               (text_value (group m ''lon_min'')) (text_value (group m ''lon_sec'')),
             text_value (group m ''alt''))"
    by (rule t1[THEN conjunct2, THEN conjunct1, rule_format]) (use a in blast)
  have r2: "parse_iso6709 (Some (ustr ''+1234'')) =
     Inl (ValueError (ustr ''Invalid ISO 6709 coordinate format: '' @ ustr ''+1234''))"
    by (rule t2[THEN conjunct1, rule_format]) (use b in blast)
  have r3: "parse_iso6709 (Some [45, 49, 1634, 49, 49, 43, 49, 49, 1634]) =
     Inr (sign_value (Some [45]) *
            (of_nat (10 * digit_val 49 + digit_val 1634) +
             of_nat (10 * digit_val 49 + digit_val 49) / 60),
          sign_value (Some [43]) *
            of_nat (100 * digit_val 49 + 10 * digit_val 49 + digit_val 1634),
          None)"
    by (rule t3[THEN conjunct2, THEN conjunct2, rule_format]) (use c s in blast)
  show ?thesis using a r1 b r2 c r3 by (intro conjI)
qed


section \<open>References into the tree and mutation behind them\<close>


lemma map_of_dict_set:
  "map_of (dict_set a k v) k' = (if k' = k then Some v else map_of a k')"
  by (induction a k v rule: dict_set.induct) auto

lemma elem_at_modify_same:
  "elem_at (modify_at f p r) p = map_option f (elem_at r p)"
  by (induction p arbitrary: r) auto

lemma own_at_modify_other:
  assumes "\<And>e. children (f e) = children e" "q \<noteq> p"
  shows "own_at (modify_at f p r) q = own_at r q"
  using assms(2)
proof (induction p arbitrary: r q)
  case Nil
  then obtain i q' where q: "q = i # q'" by (cases q) auto
  show ?case by (simp add: q own_at_def assms(1))
next
  case (Cons j p)
  show ?case
  proof (cases q)
    case Nil
    then show ?thesis by (simp add: own_at_def own_def)
  next
    case (Cons i q')
    show ?thesis
    proof (cases "i = j")
      case True
      with Cons.prems Cons have "q' \<noteq> p" by simp
      from Cons.IH[OF this, of "children r ! j"] True Cons show ?thesis
        by (simp add: own_at_def)
    next
      case False
      with Cons show ?thesis by (simp add: own_at_def)
    qed
  qed
qed

lemma children_set_attr: "children (set_attr k v e) = children e"
  by (simp add: set_attr_def)

lemma own_set_attr:
  "own (set_attr k v e) = (tag e, dict_set (attrib e) k v, elem_text e, elem_tail e, length (children e))"
  by (simp add: own_def set_attr_def)

lemma same_but_refl: "same_but ks x x"
  by (cases x) (simp add: same_but_def)

lemma same_but_trans: "same_but ks x y \<Longrightarrow> same_but ks y z \<Longrightarrow> same_but ks x z"
  by (cases x; cases y; cases z) (simp add: same_but_def)

lemma rel_option_same_but_refl: "rel_option (same_but ks) x x"
  by (cases x) (simp_all add: same_but_refl)

lemma rel_option_same_but_trans:
  "rel_option (same_but ks) x y \<Longrightarrow> rel_option (same_but ks) y z \<Longrightarrow> rel_option (same_but ks) x z"
  by (cases x; cases y; cases z) (auto intro: same_but_trans)

lemma attrib_at_own_at: "attrib_at r p = map_option (fst \<circ> snd) (own_at r p)"
  by (cases "elem_at r p") (simp_all add: attrib_at_def own_at_def own_def)


section \<open>One pass of the loop, and the whole loop\<close>


lemma get_mag_var_for_iso6709_Inr:
  assumes "get_mag_var_for_iso6709 E w dc = (Inr d, w1)"
  shows "\<exists>lat lon alt t.
           parse_iso6709 dc = Inr (lat, lon, alt) \<and>
           to_year_fraction (mktime E) (today E (readings w)) = Inr t \<and>
           calculate E lat lon (case alt of None \<Rightarrow> 0 | Some x \<Rightarrow> x) t = Inr d \<and>
           w1 = w\<lparr>readings := Suc (readings w),
                  calls := calls w @ [(lat, lon, (case alt of None \<Rightarrow> 0 | Some x \<Rightarrow> x), t)]\<rparr>"
  using assms
  by (auto simp: get_mag_var_for_iso6709_def get_mag_var_def Let_def
           split: sum.splits prod.splits)

lemma get_mag_var_for_iso6709_parse_error:
  "parse_iso6709 dc = Inl e \<Longrightarrow> get_mag_var_for_iso6709 E w dc = (Inl e, w)"
  by (simp add: get_mag_var_for_iso6709_def)

lemma get_mag_var_for_iso6709_frame:
  assumes "get_mag_var_for_iso6709 E w dc = (res, w1)"
  shows "files w1 = files w \<and> stdout w1 = stdout w"
  using assms
  by (auto simp: get_mag_var_for_iso6709_def get_mag_var_def Let_def
           split: sum.splits prod.splits)

lemma annotate_frame:
  assumes "annotate E p (r, w) = (res, w1)"
  shows "files w1 = files w \<and> stdout w1 = stdout w"
proof (cases "elem_at r p")
  case None
  with assms show ?thesis by (simp add: annotate_def)
next
  case (Some pos)
  obtain res' w' where g: "get_mag_var_for_iso6709 E w (get pos (ustr ''DefaultCenter'')) = (res', w')"
    by (cases "get_mag_var_for_iso6709 E w (get pos (ustr ''DefaultCenter''))") auto
  from assms Some g have "w1 = w'"
    by (cases res') (simp_all add: annotate_def Let_def)
  with get_mag_var_for_iso6709_frame[OF g] show ?thesis by simp
qed

lemma annotate_Inr:
  assumes "annotate E p (r, w) = (Inr r', w')"
  shows "\<exists>a a' c.
           attrib_at r p = Some a \<and> attrib_at r' p = Some a' \<and>
           annotated E (readings w) a a' c \<and>
           w' = w\<lparr>readings := Suc (readings w), calls := calls w @ [c]\<rparr> \<and>
           (\<forall>q. q \<noteq> p \<longrightarrow> own_at r' q = own_at r q) \<and>
           (\<forall>q. rel_option (same_but {ustr ''MagneticVariation'', ustr ''Rotation''}) (own_at r' q) (own_at r q))"
proof -
  from assms obtain pos where pos: "elem_at r p = Some pos"
    by (cases "elem_at r p") (auto simp: annotate_def)
  obtain res1 w1 where g: "get_mag_var_for_iso6709 E w (get pos (ustr ''DefaultCenter'')) = (res1, w1)"
    by (cases "get_mag_var_for_iso6709 E w (get pos (ustr ''DefaultCenter''))") auto
  from assms pos g obtain d where d: "res1 = Inr d" and w1: "w' = w1"
    and r': "r' = modify_at (set_attr (ustr ''Rotation'') (ustr ''0'')) p
                   (modify_at (set_attr (ustr ''MagneticVariation'') (float_str E (py_round (d * (- 1)) 2))) p r)"
    by (cases res1) (auto simp: annotate_def Let_def)
  let ?mv = "float_str E (py_round (- d) 2)"
  let ?a = "attrib pos"
  let ?a' = "dict_set (dict_set ?a (ustr ''MagneticVariation'') ?mv) (ustr ''Rotation'') (ustr ''0'')"
  from get_mag_var_for_iso6709_Inr[OF g[unfolded d]] obtain lat lon alt t where
    p1: "parse_iso6709 (map_of ?a (ustr ''DefaultCenter'')) = Inr (lat, lon, alt)" and
    p2: "to_year_fraction (mktime E) (today E (readings w)) = Inr t" and
    p3: "calculate E lat lon (case alt of None \<Rightarrow> 0 | Some x \<Rightarrow> x) t = Inr d" and
    p4: "w1 = w\<lparr>readings := Suc (readings w),
                  calls := calls w @ [(lat, lon, (case alt of None \<Rightarrow> 0 | Some x \<Rightarrow> x), t)]\<rparr>"
    by (auto simp: get_def)
  have ann: "annotated E (readings w) ?a ?a' (lat, lon, (case alt of None \<Rightarrow> 0 | Some x \<Rightarrow> x), t)"
    unfolding annotated_def using p1 p2 p3 by blast
  have e': "elem_at r' p =
      Some (set_attr (ustr ''Rotation'') (ustr ''0'') (set_attr (ustr ''MagneticVariation'') ?mv pos))"
    by (simp add: r' elem_at_modify_same pos)
  have a: "attrib_at r p = Some ?a" by (simp add: attrib_at_def pos)
  have a': "attrib_at r' p = Some ?a'" by (simp add: attrib_at_def e' set_attr_def)
  have other: "own_at r' q = own_at r q" if "q \<noteq> p" for q
    unfolding r' using that by (simp add: own_at_modify_other children_set_attr)
  have same: "rel_option (same_but {ustr ''MagneticVariation'', ustr ''Rotation''}) (own_at r' q) (own_at r q)" for q
  proof (cases "q = p")
    case True
    then show ?thesis
      by (simp add: own_at_def e' pos own_def set_attr_def same_but_def map_of_dict_set)
  next
    case False
    then show ?thesis by (simp add: other rel_option_same_but_refl)
  qed
  show ?thesis using a a' ann p4 w1 other same by blast
qed

lemma annotate_parse_error:
  assumes "attrib_at r p = Some a" "parse_iso6709 (map_of a (ustr ''DefaultCenter'')) = Inl e"
  shows "annotate E p (r, w) = (Inl e, w)"
proof -
  from assms(1) obtain pos where pos: "elem_at r p = Some pos" "attrib pos = a"
    by (auto simp: attrib_at_def)
  then show ?thesis
    using assms(2)
    by (simp add: annotate_def Let_def get_def get_mag_var_for_iso6709_parse_error)
qed

lemma positions_loop_frame:
  "positions_loop E ps (r, w) = (res, w') \<Longrightarrow> files w' = files w \<and> stdout w' = stdout w"
proof (induction ps arbitrary: r w)
  case Nil
  then show ?case by simp
next
  case (Cons p ps)
  obtain res1 w1 where a: "annotate E p (r, w) = (res1, w1)"
    by (cases "annotate E p (r, w)") auto
  note f = annotate_frame[OF a]
  show ?case
  proof (cases res1)
    case (Inl e)
    with Cons.prems a f show ?thesis by simp
  next
    case (Inr r1)
    with Cons.prems a have "positions_loop E ps (r1, w1) = (res, w')" by simp
    from Cons.IH[OF this] f show ?thesis by simp
  qed
qed

lemma positions_loop_Inr:
  "positions_loop E ps (r, w) = (Inr r', w') \<Longrightarrow>
     readings w' = readings w + length ps \<and>
     (\<exists>cs. calls w' = calls w @ cs \<and> length cs = length ps) \<and>
     (\<forall>q. q \<notin> set ps \<longrightarrow> own_at r' q = own_at r q) \<and>
     (\<forall>q. rel_option (same_but {ustr ''MagneticVariation'', ustr ''Rotation''}) (own_at r' q) (own_at r q)) \<and>
     (distinct ps \<longrightarrow>
        (\<forall>k<length ps. \<exists>a a'.
           attrib_at r (ps ! k) = Some a \<and> attrib_at r' (ps ! k) = Some a' \<and>
           annotated E (readings w + k) a a' (calls w' ! (length (calls w) + k))))"
proof (induction ps arbitrary: r w)
  case Nil
  then show ?case by (simp add: rel_option_same_but_refl)
next
  case (Cons p ps)
  from Cons.prems obtain r1 w1 where
    a: "annotate E p (r, w) = (Inr r1, w1)" and l: "positions_loop E ps (r1, w1) = (Inr r', w')"
    by (cases "annotate E p (r, w)") (auto split: sum.splits)
  from annotate_Inr[OF a] obtain a0 a1 c where
    s1: "attrib_at r p = Some a0" and s2: "attrib_at r1 p = Some a1" and
    s3: "annotated E (readings w) a0 a1 c" and
    s4: "w1 = w\<lparr>readings := Suc (readings w), calls := calls w @ [c]\<rparr>" and
    s5: "\<And>q. q \<noteq> p \<Longrightarrow> own_at r1 q = own_at r q" and
    s6: "\<And>q. rel_option (same_but {ustr ''MagneticVariation'', ustr ''Rotation''}) (own_at r1 q) (own_at r q)"
    by blast
  from Cons.IH[OF l] obtain cs where
    i1: "readings w' = readings w1 + length ps" and
    i2: "calls w' = calls w1 @ cs" "length cs = length ps" and
    i3: "\<And>q. q \<notin> set ps \<Longrightarrow> own_at r' q = own_at r1 q" and
    i4: "\<And>q. rel_option (same_but {ustr ''MagneticVariation'', ustr ''Rotation''}) (own_at r' q) (own_at r1 q)" and
    i5: "distinct ps \<Longrightarrow> (\<forall>k<length ps. \<exists>a a'.
           attrib_at r1 (ps ! k) = Some a \<and> attrib_at r' (ps ! k) = Some a' \<and>
           annotated E (readings w1 + k) a a' (calls w' ! (length (calls w1) + k)))"
    by blast
  have c1: "readings w' = readings w + length (p # ps)" using i1 s4 by simp
  have c2: "\<exists>cs'. calls w' = calls w @ cs' \<and> length cs' = length (p # ps)"
    using i2 s4 by (intro exI[of _ "c # cs"]) simp
  have c3: "\<forall>q. q \<notin> set (p # ps) \<longrightarrow> own_at r' q = own_at r q"
    using i3 s5 by simp
  have c4: "\<forall>q. rel_option (same_but {ustr ''MagneticVariation'', ustr ''Rotation''}) (own_at r' q) (own_at r q)"
    using rel_option_same_but_trans[OF i4 s6] by blast
  have c5: "\<exists>a a'. attrib_at r ((p # ps) ! k) = Some a \<and> attrib_at r' ((p # ps) ! k) = Some a' \<and>
           annotated E (readings w + k) a a' (calls w' ! (length (calls w) + k))"
    if d: "distinct (p # ps)" and k: "k < length (p # ps)" for k
  proof (cases k)
    case 0
    from d have "p \<notin> set ps" by simp
    from i3[OF this] s2 have "attrib_at r' p = Some a1" by (simp add: attrib_at_own_at)
    moreover have "calls w' ! length (calls w) = c" using i2 s4 by (simp add: nth_append)
    ultimately show ?thesis using 0 s1 s3 by simp
  next
    case (Suc k')
    with k have k': "k' < length ps" by simp
    from d have dp: "distinct ps" by simp
    from i5[OF dp] k' obtain a a' where
      t: "attrib_at r1 (ps ! k') = Some a" "attrib_at r' (ps ! k') = Some a'"
         "annotated E (readings w1 + k') a a' (calls w' ! (length (calls w1) + k'))"
      by blast
    from d k' have "ps ! k' \<noteq> p" by auto
    from s5[OF this] t(1) have "attrib_at r (ps ! k') = Some a" by (simp add: attrib_at_own_at)
    moreover have "readings w1 + k' = readings w + k" "length (calls w1) + k' = length (calls w) + k"
      using s4 Suc by simp_all
    ultimately show ?thesis using t(2,3) Suc by simp
  qed
  show ?case using c1 c2 c3 c4 c5 by blast
qed

lemma positions_loop_fails:
  assumes "distinct ps" "p \<in> set ps" "attrib_at r p = Some a"
    "parse_iso6709 (map_of a (ustr ''DefaultCenter'')) = Inl e0"
  shows "\<exists>e w'. positions_loop E ps (r, w) = (Inl e, w')"
  using assms
proof (induction ps arbitrary: r w)
  case Nil
  then show ?case by simp
next
  case (Cons q ps)
  obtain res1 w1 where a: "annotate E q (r, w) = (res1, w1)"
    by (cases "annotate E q (r, w)") auto
  show ?case
  proof (cases res1)
    case (Inl e)
    with a show ?thesis by simp
  next
    case (Inr r1)
    have "p \<noteq> q"
    proof
      assume "p = q"
      with annotate_parse_error[OF Cons.prems(3,4), of E w] a Inr show False by simp
    qed
    with Cons.prems have p: "p \<in> set ps" and d: "distinct ps" by auto
    from annotate_Inr[OF a[unfolded Inr]] \<open>p \<noteq> q\<close> have "own_at r1 p = own_at r p" by blast
    with Cons.prems(3) have "attrib_at r1 p = Some a" by (simp add: attrib_at_own_at)
    from Cons.IH[OF d p this Cons.prems(4), of w1] a Inr show ?thesis by simp
  qed
qed




section \<open>The elements that the loop visits\<close>


lemma set_findall:
  "set (findall e n) = {i. i < length (children e) \<and> tag (children e ! i) = n}"
  by (auto simp: findall_def)

lemma distinct_findall: "distinct (findall e n)"
  by (simp add: findall_def)

lemma sorted_findall: "sorted_wrt (<) (findall e n)"
  unfolding findall_def by (rule sorted_wrt_filter) (simp add: sorted_wrt_upt)

lemma set_root_positions:
  "set (root_positions r) =
     {[i] | i. i < length (children r) \<and> tag (children r ! i) = ustr ''Position''}"
  by (auto simp: root_positions_def set_findall)

lemma set_group_positions:
  "set (group_positions r) =
     {[g, j] | g j. g < length (children r) \<and> tag (children r ! g) = ustr ''Group'' \<and>
        j < length (children (children r ! g)) \<and>
        tag (children (children r ! g) ! j) = ustr ''Position''}"
  by (auto simp: group_positions_def set_findall)

lemma distinct_root_positions: "distinct (root_positions r)"
  by (simp add: root_positions_def distinct_map distinct_findall inj_on_def)

lemma distinct_pairs:
  assumes "distinct gs" "\<And>g. distinct (F g)"
  shows "distinct (concat (map (\<lambda>g. map (\<lambda>j. [g, j]) (F g)) gs))"
  using assms(1)
proof (induction gs)
  case Nil
  then show ?case by simp
next
  case (Cons g gs)
  have "distinct (map (\<lambda>j. [g, j]) (F g))"
    by (simp add: distinct_map assms(2) inj_on_def)
  moreover have "set (map (\<lambda>j. [g, j]) (F g)) \<inter> set (concat (map (\<lambda>g. map (\<lambda>j. [g, j]) (F g)) gs)) = {}"
    using Cons.prems by auto
  ultimately show ?case using Cons by simp
qed

lemma distinct_group_positions: "distinct (group_positions r)"
  unfolding group_positions_def by (rule distinct_pairs) (rule distinct_findall)+

lemma distinct_all_positions: "distinct (all_positions r)"
  by (auto simp: all_positions_def distinct_root_positions distinct_group_positions
        set_root_positions set_group_positions)

lemma all_positions_valid:
  assumes "p \<in> set (all_positions r)"
  shows "\<exists>e. elem_at r p = Some e \<and> tag e = ustr ''Position''"
  using assms by (auto simp: all_positions_def set_root_positions set_group_positions)

lemma sorted_root_positions: "sorted_wrt doc_before (root_positions r)"
  unfolding root_positions_def sorted_wrt_map
  by (rule sorted_wrt_mono_rel[OF _ sorted_findall]) (simp add: doc_before_def)

lemma sorted_pairs:
  assumes "sorted_wrt (<) gs" "\<And>g. sorted_wrt (<) (F g)"
  shows "sorted_wrt doc_before (concat (map (\<lambda>g. map (\<lambda>j. [g, j]) (F g)) gs))"
  using assms(1)
proof (induction gs)
  case Nil
  then show ?case by simp
next
  case (Cons g gs)
  have "sorted_wrt doc_before (map (\<lambda>j. [g, j]) (F g))"
    unfolding sorted_wrt_map
    by (rule sorted_wrt_mono_rel[OF _ assms(2)]) (simp add: doc_before_def)
  moreover have "\<forall>p\<in>set (map (\<lambda>j. [g, j]) (F g)).
      \<forall>q\<in>set (concat (map (\<lambda>g. map (\<lambda>j. [g, j]) (F g)) gs)). doc_before p q"
    using Cons.prems by (auto simp: doc_before_def)
  ultimately show ?case using Cons by (simp add: sorted_wrt_append)
qed

lemma sorted_group_positions: "sorted_wrt doc_before (group_positions r)"
  unfolding group_positions_def by (rule sorted_pairs) (rule sorted_findall)+


section \<open>The run of the positions pipeline\<close>


lemma same_but_map_of:
  "same_but ks x y \<Longrightarrow> key \<notin> ks \<Longrightarrow> map_of (fst (snd x)) key = map_of (fst (snd y)) key"
  by (cases x; cases y) (simp add: same_but_def)

lemma same_but_attrib_at:
  assumes "rel_option (same_but ks) (own_at r' q) (own_at r q)" "key \<notin> ks"
  shows "map_option (\<lambda>a. map_of a key) (attrib_at r' q) =
         map_option (\<lambda>a. map_of a key) (attrib_at r q)"
proof (cases "own_at r' q")
  case None
  with assms(1) have "own_at r q = None" by (cases "own_at r q") simp_all
  with None show ?thesis by (simp add: attrib_at_own_at)
next
  case (Some x)
  with assms(1) obtain y where y: "own_at r q = Some y" "same_but ks x y"
    by (cases "own_at r q") simp_all
  from same_but_map_of[OF y(2) assms(2)] Some y(1) show ?thesis
    by (simp add: attrib_at_own_at)
qed


lemma run_cases:
  assumes "files w f = Some (Wellformed r)"
  obtains e w1 where
      "positions_loop E (all_positions r) (r, w) = (Inl e, w1)"
      "modify_positions_xml E w f = (Inl e, w1)"
  | r' w1 where
      "positions_loop E (all_positions r) (r, w) = (Inr r', w1)"
      "fst (modify_positions_xml E w f) = Inr ()"
      "files (snd (modify_positions_xml E w f)) = (files w1)(f \<mapsto> Wellformed r')"
      "readings (snd (modify_positions_xml E w f)) = readings w1"
      "calls (snd (modify_positions_xml E w f)) = calls w1"
proof (cases "positions_loop E (all_positions r) (r, w)")
  case (Pair res w1)
  show ?thesis
  proof (cases res)
    case (Inl e)
    with Pair assms have "modify_positions_xml E w f = (Inl e, w1)"
      by (simp add: modify_positions_xml_def ET_parse_def)
    with Pair Inl show ?thesis by (intro that(1)) simp_all
  next
    case (Inr r')
    with Pair assms show ?thesis
      by (intro that(2)[of r' w1]) (simp_all add: modify_positions_xml_def ET_parse_def Let_def)
  qed
qed

lemma run_failure_frame:
  assumes "fst (modify_positions_xml E w f) = Inl e"
  shows "files (snd (modify_positions_xml E w f)) = files w"
proof (cases "ET_parse w f")
  case (Inl e')
  then show ?thesis by (simp add: modify_positions_xml_def)
next
  case (Inr r)
  obtain res w1 where l: "positions_loop E (all_positions r) (r, w) = (res, w1)"
    by (cases "positions_loop E (all_positions r) (r, w)") auto
  from assms Inr l obtain e1 where "res = Inl e1"
    by (cases res) (auto simp: modify_positions_xml_def Let_def)
  with Inr l positions_loop_frame[OF l] show ?thesis
    by (simp add: modify_positions_xml_def)
qed

lemma run_frame:
  assumes "files w f = Some (Wellformed r)"
  shows "\<exists>r'. files (snd (modify_positions_xml E w f)) f = Some (Wellformed r') \<and>
           (\<forall>g. g \<noteq> f \<longrightarrow> files (snd (modify_positions_xml E w f)) g = files w g) \<and>
           (\<forall>q. q \<notin> set (all_positions r) \<longrightarrow> own_at r' q = own_at r q) \<and>
           (\<forall>q. rel_option (same_but {ustr ''MagneticVariation'', ustr ''Rotation''})
                  (own_at r' q) (own_at r q))"
proof (rule run_cases[OF assms, where E = E], goal_cases)
  case (1 e w1)
  from positions_loop_frame[OF 1(1)] 1(2) assms show ?thesis
    by (intro exI[of _ r]) (simp add: rel_option_same_but_refl)
next
  case (2 r' w1)
  from positions_loop_Inr[OF 2(1)] positions_loop_frame[OF 2(1)] 2(3) show ?thesis
    by (intro exI[of _ r']) simp
qed

lemma run_success:
  assumes "files w f = Some (Wellformed r)" "fst (modify_positions_xml E w f) = Inr ()"
  shows "\<exists>r'. files (snd (modify_positions_xml E w f)) f = Some (Wellformed r') \<and>
           readings (snd (modify_positions_xml E w f)) = readings w + length (all_positions r) \<and>
           length (calls (snd (modify_positions_xml E w f))) = length (calls w) + length (all_positions r) \<and>
           (\<forall>k<length (all_positions r). \<exists>a a'.
              attrib_at r (all_positions r ! k) = Some a \<and>
              attrib_at r' (all_positions r ! k) = Some a' \<and>
              annotated E (readings w + k) a a'
                (calls (snd (modify_positions_xml E w f)) ! (length (calls w) + k)))"
proof (rule run_cases[OF assms(1), where E = E], goal_cases)
  case (1 e w1)
  with assms(2) show ?thesis by simp
next
  case (2 r' w1)
  from positions_loop_Inr[OF 2(1)] distinct_all_positions[of r] 2(3,4,5) show ?thesis
    by (intro exI[of _ r']) auto
qed

lemma example_file:
  "files (world_with doc) (ustr ''Positions.xml'') = Some (Wellformed doc)"
  by (simp add: world_with_def)




text \<open>
  Claim C3 fails for the grammar with the digits 0 to 9: a record whose
  \<^verbatim>\<open>DefaultCenter\<close> is written with Arabic-Indic digits is malformed for that
  grammar, and the run completes and writes the annotated record to the file.
\<close>

theorem unicode_coordinate_annotated:
  "[43, 1633, 1634, 45, 1632, 1638, 1637] \<notin> ascii_coordinate \<and>
   all_positions arabic_doc = [[0]] \<and>
   attrib_at arabic_doc [0] =
     Some [(ustr ''DefaultCenter'', [43, 1633, 1634, 45, 1632, 1638, 1637])] \<and>
   fst (modify_positions_xml example_env (world_with arabic_doc) (ustr ''Positions.xml'')) = Inr () \<and>
   (case files (snd (modify_positions_xml example_env (world_with arabic_doc)
                       (ustr ''Positions.xml''))) (ustr ''Positions.xml'') of
      Some (Wellformed r') \<Rightarrow> attrib_at r' [0]
    | _ \<Rightarrow> None) =
     Some [(ustr ''DefaultCenter'', [43, 1633, 1634, 45, 1632, 1638, 1637]),
           (ustr ''MagneticVariation'', ustr ''-11.23''), (ustr ''Rotation'', ustr ''0'')]"
proof (intro conjI)
  show "[43, 1633, 1634, 45, 1632, 1638, 1637] \<notin> ascii_coordinate"
    by (rule arabic_not_ascii)
  show "all_positions arabic_doc = [[0]]" by code_simp
  show "attrib_at arabic_doc [0] =
     Some [(ustr ''DefaultCenter'', [43, 1633, 1634, 45, 1632, 1638, 1637])]"
    by code_simp
  show "fst (modify_positions_xml example_env (world_with arabic_doc) (ustr ''Positions.xml'')) = Inr ()"
    by code_simp
  show "(case files (snd (modify_positions_xml example_env (world_with arabic_doc)
                       (ustr ''Positions.xml''))) (ustr ''Positions.xml'') of
      Some (Wellformed r') \<Rightarrow> attrib_at r' [0]
    | _ \<Rightarrow> None) =
     Some [(ustr ''DefaultCenter'', [43, 1633, 1634, 45, 1632, 1638, 1637]),
           (ustr ''MagneticVariation'', ustr ''-11.23''), (ustr ''Rotation'', ustr ''0'')]"
    by code_simp
qed

text \<open>
  Claim C3, as the program has it. When the \<^verbatim>\<open>DefaultCenter\<close> of some record that
  the loop visits is a text outside the grammar, a digit being any decimal digit of
  Unicode, the run ends with an exception; and whenever the run ends with an
  exception, every file is as it was before the run.
\<close>

theorem malformed_aborts:
  "(files w f = Some (Wellformed r) \<and> p \<in> set (all_positions r) \<and>
    attrib_at r p = Some a \<and> map_of a (ustr ''DefaultCenter'') = Some s \<and> s \<notin> coordinate
      \<longrightarrow> (\<exists>e. fst (modify_positions_xml E w f) = Inl e)) \<and>
   ((\<exists>e. fst (modify_positions_xml E w f) = Inl e)
      \<longrightarrow> files (snd (modify_positions_xml E w f)) = files w)"
proof (intro conjI impI)
  assume h: "files w f = Some (Wellformed r) \<and> p \<in> set (all_positions r) \<and>
    attrib_at r p = Some a \<and> map_of a (ustr ''DefaultCenter'') = Some s \<and> s \<notin> coordinate"
  then have pe: "parse_iso6709 (map_of a (ustr ''DefaultCenter'')) =
      Inl (ValueError (ustr ''Invalid ISO 6709 coordinate format: '' @ s))"
    by (simp add: parse_rejects)
  from h have f: "files w f = Some (Wellformed r)" by simp
  from positions_loop_fails[where E = E and w = w, OF distinct_all_positions _ _ pe] h
  obtain e w1 where "positions_loop E (all_positions r) (r, w) = (Inl e, w1)" by blast
  with f show "\<exists>e. fst (modify_positions_xml E w f) = Inl e"
    by (simp add: modify_positions_xml_def ET_parse_def)
next
  assume "\<exists>e. fst (modify_positions_xml E w f) = Inl e"
  then show "files (snd (modify_positions_xml E w f)) = files w"
    using run_failure_frame by blast
qed

theorem malformed_aborts_witness:
  "(files (world_with malformed_doc) (ustr ''Positions.xml'') = Some (Wellformed malformed_doc) \<and>
    [0] \<in> set (all_positions malformed_doc) \<and>
    attrib_at malformed_doc [0] =
      Some [(ustr ''Name'', ustr ''A''), (ustr ''DefaultCenter'', ustr ''abc'')] \<and>
    map_of [(ustr ''Name'', ustr ''A''), (ustr ''DefaultCenter'', ustr ''abc'')]
      (ustr ''DefaultCenter'') = Some (ustr ''abc'') \<and>
    ustr ''abc'' \<notin> coordinate) \<and>
   (\<exists>e. fst (modify_positions_xml example_env (world_with malformed_doc) (ustr ''Positions.xml'')) = Inl e) \<and>
   files (snd (modify_positions_xml example_env (world_with malformed_doc) (ustr ''Positions.xml''))) =
     files (world_with malformed_doc)"
proof -
  have h: "files (world_with malformed_doc) (ustr ''Positions.xml'') = Some (Wellformed malformed_doc) \<and>
    [0] \<in> set (all_positions malformed_doc) \<and>
    attrib_at malformed_doc [0] =
      Some [(ustr ''Name'', ustr ''A''), (ustr ''DefaultCenter'', ustr ''abc'')] \<and>
    map_of [(ustr ''Name'', ustr ''A''), (ustr ''DefaultCenter'', ustr ''abc'')]
      (ustr ''DefaultCenter'') = Some (ustr ''abc'') \<and>
    ustr ''abc'' \<notin> coordinate"
  proof (intro conjI)
    show "files (world_with malformed_doc) (ustr ''Positions.xml'') = Some (Wellformed malformed_doc)"
      by (rule example_file)
    show "[0] \<in> set (all_positions malformed_doc)" by code_simp
    show "attrib_at malformed_doc [0] =
        Some [(ustr ''Name'', ustr ''A''), (ustr ''DefaultCenter'', ustr ''abc'')]"
      by code_simp
    show "map_of [(ustr ''Name'', ustr ''A''), (ustr ''DefaultCenter'', ustr ''abc'')]
        (ustr ''DefaultCenter'') = Some (ustr ''abc'')"
      by code_simp
    show "ustr ''abc'' \<notin> coordinate" unfolding coordinate_code by code_simp
  qed
  note t = malformed_aborts[of "world_with malformed_doc" "ustr ''Positions.xml''" malformed_doc "[0]"
      "[(ustr ''Name'', ustr ''A''), (ustr ''DefaultCenter'', ustr ''abc'')]" "ustr ''abc''" example_env]
  have e: "\<exists>e. fst (modify_positions_xml example_env (world_with malformed_doc) (ustr ''Positions.xml'')) = Inl e"
    by (rule t[THEN conjunct1, rule_format, OF h])
  have g: "files (snd (modify_positions_xml example_env (world_with malformed_doc) (ustr ''Positions.xml''))) =
     files (world_with malformed_doc)"
    by (rule t[THEN conjunct2, rule_format, OF e])
  show ?thesis by (rule conjI[OF h conjI[OF e g]])
qed


text \<open>
  Claim C4. The loop visits exactly the \<^verbatim>\<open>Position\<close> children of the root and the
  \<^verbatim>\<open>Position\<close> children of the \<^verbatim>\<open>Group\<close> children of the root, each once: first
  those under the root in document order, then those in the groups in document order.
  No element three or more levels below the root is visited, and none of them is
  changed in the file by a run.
\<close>

theorem walker_selection:
  "all_positions r = root_positions r @ group_positions r \<and>
   set (root_positions r) =
     {[i] | i. i < length (children r) \<and> tag (children r ! i) = ustr ''Position''} \<and>
   set (group_positions r) =
     {[g, j] | g j. g < length (children r) \<and> tag (children r ! g) = ustr ''Group'' \<and>
        j < length (children (children r ! g)) \<and>
        tag (children (children r ! g) ! j) = ustr ''Position''} \<and>
   sorted_wrt doc_before (root_positions r) \<and>
   sorted_wrt doc_before (group_positions r) \<and>
   distinct (all_positions r) \<and>
   (\<forall>g h k q. g # h # k # q \<notin> set (all_positions r)) \<and>
   (files w f = Some (Wellformed r) \<longrightarrow>
      (\<exists>r'. files (snd (modify_positions_xml E w f)) f = Some (Wellformed r') \<and>
         (\<forall>g h k q. own_at r' (g # h # k # q) = own_at r (g # h # k # q))))"
proof -
  have deep: "g # h # k # q \<notin> set (all_positions r)" for g h k q
    by (auto simp: all_positions_def set_root_positions set_group_positions)
  have run: "\<exists>r'. files (snd (modify_positions_xml E w f)) f = Some (Wellformed r') \<and>
         (\<forall>g h k q. own_at r' (g # h # k # q) = own_at r (g # h # k # q))"
    if "files w f = Some (Wellformed r)"
  proof -
    from run_frame[OF that, of E] obtain r' where
      a: "files (snd (modify_positions_xml E w f)) f = Some (Wellformed r')" and
      c: "\<And>q. q \<notin> set (all_positions r) \<Longrightarrow> own_at r' q = own_at r q"
      by blast
    have "own_at r' (g # h # k # q) = own_at r (g # h # k # q)" for g h k q
      by (rule c[OF deep])
    with a show ?thesis by blast
  qed
  show ?thesis
  proof (intro conjI allI impI)
    show "all_positions r = root_positions r @ group_positions r"
      by (simp add: all_positions_def)
    show "set (root_positions r) =
        {[i] | i. i < length (children r) \<and> tag (children r ! i) = ustr ''Position''}"
      by (rule set_root_positions)
    show "set (group_positions r) =
        {[g, j] | g j. g < length (children r) \<and> tag (children r ! g) = ustr ''Group'' \<and>
           j < length (children (children r ! g)) \<and>
           tag (children (children r ! g) ! j) = ustr ''Position''}"
      by (rule set_group_positions)
    show "sorted_wrt doc_before (root_positions r)" by (rule sorted_root_positions)
    show "sorted_wrt doc_before (group_positions r)" by (rule sorted_group_positions)
    show "distinct (all_positions r)" by (rule distinct_all_positions)
    show "g # h # k # q \<notin> set (all_positions r)" for g h k q by (rule deep)
    show "\<exists>r'. files (snd (modify_positions_xml E w f)) f = Some (Wellformed r') \<and>
         (\<forall>g h k q. own_at r' (g # h # k # q) = own_at r (g # h # k # q))"
      if "files w f = Some (Wellformed r)" using run[OF that] .
  qed
qed


theorem walker_selection_witness:
  "all_positions example_doc = [[0], [1, 0]] \<and>
   [1, 1, 0] \<notin> set (all_positions example_doc) \<and>
   own_at example_doc [1, 1, 0] =
     Some (ustr ''Position'',
           [(ustr ''Name'', ustr ''C''), (ustr ''DefaultCenter'', ustr ''+00-000'')],
           None, None, 0) \<and>
   files (world_with example_doc) (ustr ''Positions.xml'') = Some (Wellformed example_doc) \<and>
   (\<exists>r'. files (snd (modify_positions_xml example_env (world_with example_doc)
                        (ustr ''Positions.xml''))) (ustr ''Positions.xml'') = Some (Wellformed r') \<and>
      own_at r' [1, 1, 0] = own_at example_doc [1, 1, 0])"
proof -
  have h: "files (world_with example_doc) (ustr ''Positions.xml'') = Some (Wellformed example_doc)"
    by (rule example_file)
  have ps: "all_positions example_doc = [[0], [1, 0]]" by code_simp
  have v: "own_at example_doc [1, 1, 0] =
     Some (ustr ''Position'',
           [(ustr ''Name'', ustr ''C''), (ustr ''DefaultCenter'', ustr ''+00-000'')],
           None, None, 0)"
    by code_simp
  note t = walker_selection[of example_doc "world_with example_doc" "ustr ''Positions.xml''" example_env]
  from t have d: "\<forall>g h k q. g # h # k # q \<notin> set (all_positions example_doc)"
    by (elim conjE)
  from t have "files (world_with example_doc) (ustr ''Positions.xml'') = Some (Wellformed example_doc) \<longrightarrow>
      (\<exists>r'. files (snd (modify_positions_xml example_env (world_with example_doc)
                           (ustr ''Positions.xml''))) (ustr ''Positions.xml'') = Some (Wellformed r') \<and>
         (\<forall>g h k q. own_at r' (g # h # k # q) = own_at example_doc (g # h # k # q)))"
    by (elim conjE)
  with h obtain r' where
    r: "files (snd (modify_positions_xml example_env (world_with example_doc)
                      (ustr ''Positions.xml''))) (ustr ''Positions.xml'') = Some (Wellformed r')"
       "\<And>g h k q. own_at r' (g # h # k # q) = own_at example_doc (g # h # k # q)"
    by blast
  have "own_at r' [1, 1, 0] = own_at example_doc [1, 1, 0]" by (rule r(2))
  with r(1) have e: "\<exists>r'. files (snd (modify_positions_xml example_env (world_with example_doc)
                        (ustr ''Positions.xml''))) (ustr ''Positions.xml'') = Some (Wellformed r') \<and>
      own_at r' [1, 1, 0] = own_at example_doc [1, 1, 0]" by blast
  from d have n: "[1, 1, 0] \<notin> set (all_positions example_doc)" by (rule allE) blast
  show ?thesis by (rule conjI[OF ps conjI[OF n conjI[OF v conjI[OF h e]]]])
qed


text \<open>
  Claim C9. Whatever the outcome of the run, the document in the file afterwards has
  at every place an element with the tag, text, tail and number of children that
  were there before, and with the same value (or absence) of every attribute other
  than \<^verbatim>\<open>MagneticVariation\<close> and \<^verbatim>\<open>Rotation\<close>; an element that the loop does not
  visit has exactly the attributes it had, in the same order; and the other files are
  untouched.
\<close>

theorem positions_frame:
  assumes "files w f = Some (Wellformed r)"
  shows "\<exists>r'. files (snd (modify_positions_xml E w f)) f = Some (Wellformed r') \<and>
     (\<forall>g. g \<noteq> f \<longrightarrow> files (snd (modify_positions_xml E w f)) g = files w g) \<and>
     (\<forall>q. rel_option (same_but {ustr ''MagneticVariation'', ustr ''Rotation''})
            (own_at r' q) (own_at r q)) \<and>
     (\<forall>q key. key \<noteq> ustr ''MagneticVariation'' \<and> key \<noteq> ustr ''Rotation'' \<longrightarrow>
        map_option (\<lambda>a. map_of a key) (attrib_at r' q) =
        map_option (\<lambda>a. map_of a key) (attrib_at r q)) \<and>
     (\<forall>q. q \<notin> set (all_positions r) \<longrightarrow> own_at r' q = own_at r q)"
proof -
  from run_frame[OF assms, of E] obtain r' where
    a: "files (snd (modify_positions_xml E w f)) f = Some (Wellformed r')" and
    b: "\<And>g. g \<noteq> f \<Longrightarrow> files (snd (modify_positions_xml E w f)) g = files w g" and
    c: "\<And>q. q \<notin> set (all_positions r) \<Longrightarrow> own_at r' q = own_at r q" and
    d: "\<And>q. rel_option (same_but {ustr ''MagneticVariation'', ustr ''Rotation''})
             (own_at r' q) (own_at r q)"
    by blast
  have e: "map_option (\<lambda>a. map_of a key) (attrib_at r' q) =
        map_option (\<lambda>a. map_of a key) (attrib_at r q)"
    if "key \<noteq> ustr ''MagneticVariation'' \<and> key \<noteq> ustr ''Rotation''" for q key
    by (rule same_but_attrib_at[OF d]) (use that in simp)
  show ?thesis
  proof (intro exI[of _ r'] conjI allI impI)
    show "files (snd (modify_positions_xml E w f)) f = Some (Wellformed r')" by (rule a)
    show "files (snd (modify_positions_xml E w f)) g = files w g" if "g \<noteq> f" for g
      by (rule b[OF that])
    show "rel_option (same_but {ustr ''MagneticVariation'', ustr ''Rotation''})
            (own_at r' q) (own_at r q)" for q
      by (rule d)
    show "map_option (\<lambda>a. map_of a key) (attrib_at r' q) =
        map_option (\<lambda>a. map_of a key) (attrib_at r q)"
      if "key \<noteq> ustr ''MagneticVariation'' \<and> key \<noteq> ustr ''Rotation''" for q key
      by (rule e[OF that])
    show "own_at r' q = own_at r q" if "q \<notin> set (all_positions r)" for q
      by (rule c[OF that])
  qed
qed


theorem positions_frame_witness:
  "files (world_with example_doc) (ustr ''Positions.xml'') = Some (Wellformed example_doc) \<and>
   attrib_at example_doc [1, 0] =
     Some [(ustr ''Name'', ustr ''B''), (ustr ''DefaultCenter'', ustr ''+12.5-065.75'')] \<and>
   [1] \<notin> set (all_positions example_doc) \<and>
   own_at example_doc [1] =
     Some (ustr ''Group'', [(ustr ''Name'', ustr ''G'')], None, None, 2) \<and>
   (\<exists>r'. files (snd (modify_positions_xml example_env (world_with example_doc)
                        (ustr ''Positions.xml''))) (ustr ''Positions.xml'') = Some (Wellformed r') \<and>
      map_option (\<lambda>a. map_of a (ustr ''DefaultCenter'')) (attrib_at r' [1, 0]) =
        Some (Some (ustr ''+12.5-065.75'')) \<and>
      map_option (\<lambda>a. map_of a (ustr ''Name'')) (attrib_at r' [1, 0]) = Some (Some (ustr ''B'')) \<and>
      own_at r' [1] = Some (ustr ''Group'', [(ustr ''Name'', ustr ''G'')], None, None, 2))"
proof -
  have h: "files (world_with example_doc) (ustr ''Positions.xml'') = Some (Wellformed example_doc)"
    by (rule example_file)
  have at: "attrib_at example_doc [1, 0] =
     Some [(ustr ''Name'', ustr ''B''), (ustr ''DefaultCenter'', ustr ''+12.5-065.75'')]"
    by code_simp
  have ps: "all_positions example_doc = [[0], [1, 0]]" by code_simp
  have n: "[1] \<notin> set (all_positions example_doc)" by (simp add: ps)
  have v3: "own_at example_doc [1] =
     Some (ustr ''Group'', [(ustr ''Name'', ustr ''G'')], None, None, 2)"
    by code_simp
  have k1: "ustr ''DefaultCenter'' \<noteq> ustr ''MagneticVariation'' \<and> ustr ''DefaultCenter'' \<noteq> ustr ''Rotation''"
    by (simp add: ustr_def)
  have k2: "ustr ''Name'' \<noteq> ustr ''MagneticVariation'' \<and> ustr ''Name'' \<noteq> ustr ''Rotation''"
    by (simp add: ustr_def)
  have m1: "map_of [(ustr ''Name'', ustr ''B''), (ustr ''DefaultCenter'', ustr ''+12.5-065.75'')]
      (ustr ''DefaultCenter'') = Some (ustr ''+12.5-065.75'')"
    by code_simp
  have m2: "map_of [(ustr ''Name'', ustr ''B''), (ustr ''DefaultCenter'', ustr ''+12.5-065.75'')]
      (ustr ''Name'') = Some (ustr ''B'')"
    by code_simp
  from positions_frame[OF h, of example_env] obtain r' where
    a: "files (snd (modify_positions_xml example_env (world_with example_doc)
                      (ustr ''Positions.xml''))) (ustr ''Positions.xml'') = Some (Wellformed r')" and
    b: "\<And>q key. key \<noteq> ustr ''MagneticVariation'' \<and> key \<noteq> ustr ''Rotation'' \<Longrightarrow>
        map_option (\<lambda>a. map_of a key) (attrib_at r' q) =
        map_option (\<lambda>a. map_of a key) (attrib_at example_doc q)" and
    c: "\<And>q. q \<notin> set (all_positions example_doc) \<Longrightarrow> own_at r' q = own_at example_doc q"
    by blast
  have r1: "map_option (\<lambda>a. map_of a (ustr ''DefaultCenter'')) (attrib_at r' [1, 0]) =
        Some (Some (ustr ''+12.5-065.75''))"
    unfolding b[OF k1] at by (simp only: option.map m1)
  have r2: "map_option (\<lambda>a. map_of a (ustr ''Name'')) (attrib_at r' [1, 0]) = Some (Some (ustr ''B''))"
    unfolding b[OF k2] at by (simp only: option.map m2)
  have r3: "own_at r' [1] = Some (ustr ''Group'', [(ustr ''Name'', ustr ''G'')], None, None, 2)"
    unfolding c[OF n] by (rule v3)
  have e: "\<exists>r'. files (snd (modify_positions_xml example_env (world_with example_doc)
                        (ustr ''Positions.xml''))) (ustr ''Positions.xml'') = Some (Wellformed r') \<and>
      map_option (\<lambda>a. map_of a (ustr ''DefaultCenter'')) (attrib_at r' [1, 0]) =
        Some (Some (ustr ''+12.5-065.75'')) \<and>
      map_option (\<lambda>a. map_of a (ustr ''Name'')) (attrib_at r' [1, 0]) = Some (Some (ustr ''B'')) \<and>
      own_at r' [1] = Some (ustr ''Group'', [(ustr ''Name'', ustr ''G'')], None, None, 2)"
    by (rule exI[of _ r'], rule conjI[OF a conjI[OF r1 conjI[OF r2 r3]]])
  show ?thesis by (rule conjI[OF h conjI[OF at conjI[OF n conjI[OF v3 e]]]])
qed

subsection \<open>The decimal year\<close>








text \<open>
  Claim C7 fails: in a run over two records on a clock that advances by a second
  between its readings, the two calls of the model receive different decimal years,
  2025 and 2025 + 1/31536000.
\<close>

theorem decimal_year_differs:
  "fst (modify_positions_xml example_env (world_with example_doc) (ustr ''Positions.xml'')) = Inr () \<and>
   map (\<lambda>(glat, glon, alt, t). t)
     (calls (snd (modify_positions_xml example_env (world_with example_doc)
                    (ustr ''Positions.xml'')))) =
     [2025, 2025 + 1 / 31536000]"
  by (rule conjI) code_simp+

text \<open>
  Claim C7, as the program has it. The clock is read once for every record: in a run
  that completes over \<open>n\<close> records the clock has been read \<open>n\<close> times and the model
  called \<open>n\<close> times, and the call for the \<open>k\<close>-th record receives the decimal year
  of the \<open>k\<close>-th of these readings. The calls receive the same decimal year only
  where the readings give the same one.
\<close>

theorem decimal_year_per_record:
  assumes "files w f = Some (Wellformed r)"
    and "fst (modify_positions_xml E w f) = Inr ()"
  shows "readings (snd (modify_positions_xml E w f)) = readings w + length (all_positions r) \<and>
     length (calls (snd (modify_positions_xml E w f))) =
       length (calls w) + length (all_positions r) \<and>
     (\<forall>k<length (all_positions r).
        to_year_fraction (mktime E) (today E (readings w + k)) =
          Inr (snd (snd (snd (calls (snd (modify_positions_xml E w f)) ! (length (calls w) + k))))))"
proof -
  from run_success[OF assms] obtain r' where
    a: "readings (snd (modify_positions_xml E w f)) = readings w + length (all_positions r)" and
    b: "length (calls (snd (modify_positions_xml E w f))) =
          length (calls w) + length (all_positions r)" and
    k: "\<And>k. k < length (all_positions r) \<Longrightarrow> \<exists>a a'.
              attrib_at r (all_positions r ! k) = Some a \<and>
              attrib_at r' (all_positions r ! k) = Some a' \<and>
              annotated E (readings w + k) a a'
                (calls (snd (modify_positions_xml E w f)) ! (length (calls w) + k))"
    by blast
  have "to_year_fraction (mktime E) (today E (readings w + k)) =
          Inr (snd (snd (snd (calls (snd (modify_positions_xml E w f)) ! (length (calls w) + k)))))"
    if "k < length (all_positions r)" for k
    using k[OF that] unfolding annotated_def by auto
  with a b show ?thesis by blast
qed

theorem decimal_year_per_record_witness:
  "files (world_with example_doc) (ustr ''Positions.xml'') = Some (Wellformed example_doc) \<and>
   fst (modify_positions_xml example_env (world_with example_doc) (ustr ''Positions.xml'')) = Inr () \<and>
   length (all_positions example_doc) = 2 \<and>
   readings (snd (modify_positions_xml example_env (world_with example_doc)
                    (ustr ''Positions.xml''))) = readings (world_with example_doc) + 2 \<and>
   to_year_fraction (mktime example_env) (today example_env (readings (world_with example_doc) + 1)) =
     Inr (snd (snd (snd (calls (snd (modify_positions_xml example_env (world_with example_doc)
        (ustr ''Positions.xml''))) ! (length (calls (world_with example_doc)) + 1)))))"
proof -
  have h1: "files (world_with example_doc) (ustr ''Positions.xml'') = Some (Wellformed example_doc)"
    by (rule example_file)
  have h2: "fst (modify_positions_xml example_env (world_with example_doc) (ustr ''Positions.xml'')) = Inr ()"
    by code_simp
  have n: "length (all_positions example_doc) = 2" by code_simp
  note t = decimal_year_per_record[OF h1 h2]
  have r1: "readings (snd (modify_positions_xml example_env (world_with example_doc)
                    (ustr ''Positions.xml''))) = readings (world_with example_doc) + 2"
    using t[THEN conjunct1] by (simp only: n)
  have r2: "to_year_fraction (mktime example_env) (today example_env (readings (world_with example_doc) + 1)) =
     Inr (snd (snd (snd (calls (snd (modify_positions_xml example_env (world_with example_doc)
        (ustr ''Positions.xml''))) ! (length (calls (world_with example_doc)) + 1)))))"
    by (rule t[THEN conjunct2, THEN conjunct2, rule_format]) (simp add: n)
  show ?thesis by (rule conjI[OF h1 conjI[OF h2 conjI[OF n conjI[OF r1 r2]]]])
qed

subsection \<open>A record without coordinate\<close>






end
